theory Spec2Isabelle
  imports
    Main
    "HOL-Library.Multiset"
    "HOL-Library.Char_ord"
    "HOL-Library.List_Lexorder"
begin

section \<open>The Content-Encoding middleware of go-content-encoding\<close>

text \<open>
  A shallow embedding of \<^verbatim>\<open>contentencoding.Decode\<close> (the version that also negotiates
  \<^verbatim>\<open>Accept-Encoding\<close>). Go strings are byte strings, so they are \<open>string\<close> here and
  Go's \<^verbatim>\<open><\<close> on strings is the lexicographic order on \<open>char list\<close>.
  The codec libraries (brotli, gzip, zstd), the order in which Go iterates a map, the
  handlers supplied by the caller and the next handler are collaborators of the
  middleware: they are parameters of the model.
\<close>

subsection \<open>net/http: headers, request, response writer\<close>

text \<open>
  \<^verbatim>\<open>http.Header\<close> is \<^verbatim>\<open>map[string][]string\<close>; an absent key and a key with no
  value read the same, so a header is a total function to value lists. The two keys the
  middleware uses are already in canonical form.
\<close>

type_synonym http_Header = "string \<Rightarrow> string list"

definition Header_Get :: "http_Header \<Rightarrow> string \<Rightarrow> string" where
  "Header_Get h key = (case h key of [] \<Rightarrow> [] | v # _ \<Rightarrow> v)"

definition Header_Set :: "http_Header \<Rightarrow> string \<Rightarrow> string \<Rightarrow> http_Header" where
  "Header_Set h key v = h(key := [v])"

record 'rd Request =
  Method :: string
  Header :: http_Header
  Body :: 'rd

record ResponseWriter =
  RHeader :: http_Header
  Status :: "nat option"
  Written :: string

text \<open>A Go \<^verbatim>\<open>error\<close> is observed through \<^verbatim>\<open>err.Error()\<close> only.\<close>

datatype error = Error string

fun error_Error :: "error \<Rightarrow> string" where
  "error_Error (Error msg) = msg"

definition MethodGet :: string where
  "MethodGet = ''GET''"

definition MethodHead :: string where
  "MethodHead = ''HEAD''"

definition StatusBadRequest :: nat where
  "StatusBadRequest = 400"

definition WriteHeader :: "ResponseWriter \<Rightarrow> nat \<Rightarrow> ResponseWriter" where
  "WriteHeader rw code = (if Status rw = None then rw\<lparr>Status := Some code\<rparr> else rw)"

definition Fprintln :: "ResponseWriter \<Rightarrow> string \<Rightarrow> ResponseWriter" where
  "Fprintln rw s = (WriteHeader rw 200)\<lparr>Written := Written rw @ s @ [CHR 0x0A]\<rparr>"

definition http_Error :: "ResponseWriter \<Rightarrow> string \<Rightarrow> nat \<Rightarrow> ResponseWriter" where
  "http_Error rw msg code =
     (let h1 = Header_Set (RHeader rw) ''Content-Type'' ''text/plain; charset=utf-8'';
          h2 = Header_Set h1 ''X-Content-Type-Options'' ''nosniff''
      in Fprintln (WriteHeader (rw\<lparr>RHeader := h2\<rparr>) code) msg)"

subsection \<open>Collaborators: codec libraries and map iteration\<close>

text \<open>
  \<open>'rd\<close> is the type of body readers, \<open>'o\<close> the type of \<^verbatim>\<open>zstd.DOption\<close>.
  \<^verbatim>\<open>brotli.NewReader\<close> has no error result; \<^verbatim>\<open>gzip.NewReader\<close> and
  \<^verbatim>\<open>zstd.NewReader\<close> return a reader or an error. \<open>map_iteration\<close> is the order in
  which this run iterates a Go map, given as a list of transpositions applied to the
  keys (every order is reachable, and every value of the field is an order).
\<close>

record ('rd, 'o) extern =
  brotli_NewReader :: "'rd \<Rightarrow> 'rd"
  gzip_NewReader :: "'rd \<Rightarrow> error + 'rd"
  zstd_NewReader :: "'rd \<Rightarrow> 'o list \<Rightarrow> error + 'rd"
  map_iteration :: "(nat \<times> nat) list"

text \<open>\<^verbatim>\<open>ioutil.NopCloser\<close> adds a \<^verbatim>\<open>Close\<close> that does nothing.\<close>

definition NopCloser :: "'rd \<Rightarrow> 'rd" where
  "NopCloser rd = rd"

subsection \<open>Configuration and options\<close>

type_synonym 'rd ErrorHandler =
  "ResponseWriter \<Rightarrow> 'rd Request \<Rightarrow> error \<Rightarrow> ResponseWriter \<times> 'rd Request"

type_synonym 'rd http_Handler =
  "ResponseWriter \<Rightarrow> 'rd Request \<Rightarrow> ResponseWriter \<times> 'rd Request"

text \<open>
  A custom handler may change the response writer and the request it is given, and
  returns an error or \<^verbatim>\<open>nil\<close> (\<open>None\<close>).
\<close>

record 'rd Decoder =
  Encoding :: string
  Handler :: "ResponseWriter \<Rightarrow> 'rd Request \<Rightarrow> error option \<times> ResponseWriter \<times> 'rd Request"

record ('rd, 'o) config =
  errHandler :: "'rd ErrorHandler option"
  decoders :: "'rd Decoder list"
  dopts :: "'o list"

definition new_config :: "('rd, 'o) config" where
  "new_config = \<lparr>errHandler = None, decoders = [], dopts = []\<rparr>"

definition DefaultErrorHandler :: "'rd ErrorHandler" where
  "DefaultErrorHandler rw rq err = (http_Error rw (error_Error err) StatusBadRequest, rq)"

text \<open>
  An \<^verbatim>\<open>Option\<close> is a closure over the unexported \<^verbatim>\<open>config\<close>; a client can only
  build one with the three constructors of the package.
\<close>

datatype ('rd, 'o) Option =
    WithErrorHandler "'rd ErrorHandler option"
  | WithDOptions "'o list"
  | WithDecoder "'rd Decoder list"

fun apply_Option :: "('rd, 'o) Option \<Rightarrow> ('rd, 'o) config \<Rightarrow> ('rd, 'o) config" where
  "apply_Option (WithErrorHandler eh) cfg =
     cfg\<lparr>errHandler := Some (case eh of None \<Rightarrow> DefaultErrorHandler | Some h \<Rightarrow> h)\<rparr>"
| "apply_Option (WithDOptions ds) cfg = cfg\<lparr>dopts := ds\<rparr>"
| "apply_Option (WithDecoder ds) cfg = cfg\<lparr>decoders := ds\<rparr>"

definition defaults :: "('rd, 'o) Option list" where
  "defaults = [WithErrorHandler None]"

definition make_config :: "('rd, 'o) Option list \<Rightarrow> ('rd, 'o) config" where
  "make_config opts = fold apply_Option (defaults @ opts) new_config"

subsection \<open>Strings: \<^verbatim>\<open>strings.Replace\<close>, \<^verbatim>\<open>strings.Split\<close>, \<^verbatim>\<open>strings.Join\<close>\<close>

text \<open>\<^verbatim>\<open>noSpace = strings.NewReplacer(" ", "")\<close>: every byte 0x20 is dropped.\<close>

definition noSpace_Replace :: "string \<Rightarrow> string" where
  "noSpace_Replace s = filter (\<lambda>c. c \<noteq> CHR '' '') s"

text \<open>
  \<^verbatim>\<open>strings.Split(s, ",")\<close>: the substrings between the commas, one more than there
  are commas, so the empty string gives one empty substring.
\<close>

fun Split_comma :: "string \<Rightarrow> string list" where
  "Split_comma [] = [[]]"
| "Split_comma (c # cs) =
     (if c = CHR '','' then [] # Split_comma cs
      else (case Split_comma cs of [] \<Rightarrow> [[c]] | t # ts \<Rightarrow> (c # t) # ts))"

fun Join :: "string list \<Rightarrow> string \<Rightarrow> string" where
  "Join [] sep = []"
| "Join [s] sep = s"
| "Join (s # t # ts) sep = s @ sep @ Join (t # ts) sep"

definition splitEncodingHeader :: "string \<Rightarrow> string list" where
  "splitEncodingHeader raw = (if raw = [] then [] else Split_comma (noSpace_Replace raw))"

definition joinWithCommaSpace :: "string list \<Rightarrow> string" where
  "joinWithCommaSpace ss = Join ss '', ''"

subsection \<open>\<^verbatim>\<open>strset\<close> and \<^verbatim>\<open>mergeAcceptEncoding\<close>\<close>

text \<open>
  A \<^verbatim>\<open>strset.Set\<close> is a Go map with the strings as keys: here the list of its distinct
  keys. \<^verbatim>\<open>List()\<close> ranges over the map, in the order the run happens to iterate it.
\<close>

definition strset_New :: "string list \<Rightarrow> string list" where
  "strset_New items = remdups items"

definition strset_Merge :: "string list \<Rightarrow> string list \<Rightarrow> string list" where
  "strset_Merge s t = remdups (s @ t)"

definition swap_keys :: "nat \<times> nat \<Rightarrow> 'a list \<Rightarrow> 'a list" where
  "swap_keys p ks =
     (if fst p < length ks \<and> snd p < length ks
      then ks[snd p := ks ! fst p, fst p := ks ! snd p] else ks)"

definition strset_List :: "(nat \<times> nat) list \<Rightarrow> string list \<Rightarrow> string list" where
  "strset_List order s = fold swap_keys order s"

definition sort_Strings :: "string list \<Rightarrow> string list" where
  "sort_Strings list = sort list"

definition mergeAcceptEncoding :: "(nat \<times> nat) list \<Rightarrow> string \<Rightarrow> string list \<Rightarrow> string" where
  "mergeAcceptEncoding order raw adds =
     (let current = splitEncodingHeader raw in
      if length current = 0 then joinWithCommaSpace adds
      else
        let set1 = strset_Merge (strset_New current) (strset_New adds);
            list = strset_List order set1
        in joinWithCommaSpace (sort_Strings list))"

subsection \<open>The request handler\<close>

text \<open>
  The handler works on one response writer and one request, which it and the callbacks
  change in place. The state carries both, and a trace of the calls the handler makes,
  in program order: each decode step with its result, the call of the error handler with
  its arguments, the write of \<^verbatim>\<open>Accept-Encoding\<close>, and the call of the next handler
  with its arguments. \<open>Panicked\<close> stands for a Go run-time panic.
\<close>

datatype step = Brotli | Gzip | Zstd | Custom nat

datatype 'rd event =
    Decoded step "error option"
  | ErrHandled ResponseWriter "'rd Request" error
  | AcceptEncodingSet string
  | NextServed ResponseWriter "'rd Request"
  | Panicked

record 'rd state =
  resp :: ResponseWriter
  req :: "'rd Request"
  trace :: "'rd event list"

datatype 'a flow = Continue 'a | Return 'a

definition log_event :: "'rd event \<Rightarrow> 'rd state \<Rightarrow> 'rd state" where
  "log_event ev st = st\<lparr>trace := trace st @ [ev]\<rparr>"

definition decompressBrotli :: "('rd, 'o) extern \<Rightarrow> 'rd state \<Rightarrow> 'rd state" where
  "decompressBrotli ext st =
     log_event (Decoded Brotli None)
       (st\<lparr>req := (req st)\<lparr>Body := NopCloser (brotli_NewReader ext (Body (req st)))\<rparr>\<rparr>)"

definition decompressGzip :: "('rd, 'o) extern \<Rightarrow> 'rd state \<Rightarrow> error option \<times> 'rd state" where
  "decompressGzip ext st =
     (case gzip_NewReader ext (Body (req st)) of
        Inl err \<Rightarrow> (Some err, log_event (Decoded Gzip (Some err)) st)
      | Inr gr \<Rightarrow> (None, log_event (Decoded Gzip None) (st\<lparr>req := (req st)\<lparr>Body := gr\<rparr>\<rparr>)))"

definition decompressZstd ::
  "('rd, 'o) extern \<Rightarrow> 'rd state \<Rightarrow> 'o list \<Rightarrow> error option \<times> 'rd state" where
  "decompressZstd ext st opts =
     (case zstd_NewReader ext (Body (req st)) opts of
        Inl err \<Rightarrow> (Some err, log_event (Decoded Zstd (Some err)) st)
      | Inr zr \<Rightarrow>
          (None, log_event (Decoded Zstd None) (st\<lparr>req := (req st)\<lparr>Body := NopCloser zr\<rparr>\<rparr>)))"

definition call_Handler :: "'rd Decoder \<Rightarrow> nat \<Rightarrow> 'rd state \<Rightarrow> error option \<times> 'rd state" where
  "call_Handler decoder idx st =
     (case Handler decoder (resp st) (req st) of
        (err, rw, rq) \<Rightarrow> (err, log_event (Decoded (Custom idx) err) (st\<lparr>resp := rw, req := rq\<rparr>)))"

definition call_errHandler :: "('rd, 'o) config \<Rightarrow> 'rd state \<Rightarrow> error \<Rightarrow> 'rd state" where
  "call_errHandler cfg st err =
     (case errHandler cfg of
        None \<Rightarrow> log_event Panicked st
      | Some eh \<Rightarrow>
          (case eh (resp st) (req st) err of
             (rw, rq) \<Rightarrow>
               (log_event (ErrHandled (resp st) (req st) err) st)\<lparr>resp := rw, req := rq\<rparr>))"

definition call_next :: "'rd http_Handler \<Rightarrow> 'rd state \<Rightarrow> 'rd state" where
  "call_next next st =
     (case next (resp st) (req st) of
        (rw, rq) \<Rightarrow> (log_event (NextServed (resp st) (req st)) st)\<lparr>resp := rw, req := rq\<rparr>)"

text \<open>
  \<^verbatim>\<open>for _, decoder := range cfg.decoders\<close>, on the decoders from index \<open>idx\<close> on.
  There is no \<^verbatim>\<open>break\<close> after a decoder that matched.
\<close>

fun range_decoders ::
  "('rd, 'o) config \<Rightarrow> string \<Rightarrow> 'rd Decoder list \<Rightarrow> nat \<Rightarrow> 'rd state \<Rightarrow> 'rd state flow" where
  "range_decoders cfg v [] idx st = Continue st"
| "range_decoders cfg v (decoder # rest) idx st =
     (if v = Encoding decoder then
        (case call_Handler decoder idx st of
           (Some err, st') \<Rightarrow> Return (call_errHandler cfg st' err)
         | (None, st') \<Rightarrow> range_decoders cfg v rest (Suc idx) st')
      else range_decoders cfg v rest (Suc idx) st)"

text \<open>The \<^verbatim>\<open>switch v\<close> of the loop body.\<close>

definition switch_encoding ::
  "('rd, 'o) extern \<Rightarrow> ('rd, 'o) config \<Rightarrow> string \<Rightarrow> 'rd state \<Rightarrow> 'rd state flow" where
  "switch_encoding ext cfg v st =
     (if v = ''br'' then Continue (decompressBrotli ext st)
      else if v = ''gzip'' \<or> v = ''x-gzip'' then
        (case decompressGzip ext st of
           (Some err, st') \<Rightarrow> Return (call_errHandler cfg st' err)
         | (None, st') \<Rightarrow> Continue st')
      else if v = ''zstd'' then
        (case decompressZstd ext st (dopts cfg) of
           (Some err, st') \<Rightarrow> Return (call_errHandler cfg st' err)
         | (None, st') \<Rightarrow> Continue st')
      else if v = [] \<or> v = ''identity'' then Continue st
      else range_decoders cfg v (decoders cfg) 0 st)"

text \<open>
  \<^verbatim>\<open>for i := len(values) - 1; i >= 0; i--\<close>, from the index \<open>i\<close> on. An index
  outside \<open>values\<close> would panic.
\<close>

function values_loop ::
  "('rd, 'o) extern \<Rightarrow> ('rd, 'o) config \<Rightarrow> string list \<Rightarrow> int \<Rightarrow> 'rd state \<Rightarrow> 'rd state flow"
  where
  "values_loop ext cfg vals i st =
     (if i \<ge> 0 then
        (if nat i < length vals then
           (case switch_encoding ext cfg (vals ! nat i) st of
              Return st' \<Rightarrow> Return st'
            | Continue st' \<Rightarrow> values_loop ext cfg vals (i - 1) st')
         else Return (log_event Panicked st))
      else Continue st)"
  by pat_completeness auto
termination
  by (relation "measure (\<lambda>(ext, cfg, vals, i, st). nat (i + 1))") auto

text \<open>
  The handler that \<^verbatim>\<open>Decode(opts...)(next)\<close> returns, with the variables
  \<open>cfg\<close>, \<open>encodings\<close> and \<open>acceptEncoding\<close> it closes over.
\<close>

definition ServeHTTP ::
  "('rd, 'o) extern \<Rightarrow> ('rd, 'o) config \<Rightarrow> string list \<Rightarrow> string \<Rightarrow> 'rd http_Handler \<Rightarrow>
   ResponseWriter \<Rightarrow> 'rd Request \<Rightarrow> 'rd state" where
  "ServeHTTP ext cfg encodings acceptEncoding next rw rq =
     (let st = \<lparr>resp = rw, req = rq, trace = []\<rparr> in
      if Method rq = MethodGet \<or> Method rq = MethodHead then call_next next st
      else
        let vals = splitEncodingHeader (Header_Get (Header rq) ''Content-Encoding'') in
        (case values_loop ext cfg vals (int (length vals) - 1) st of
           Return st' \<Rightarrow> st'
         | Continue st' \<Rightarrow>
             let current = Header_Get (RHeader (resp st')) ''Accept-Encoding'';
                 value = (if current = [] then acceptEncoding
                          else mergeAcceptEncoding (map_iteration ext) current encodings);
                 rw' = (resp st')\<lparr>RHeader :=
                          Header_Set (RHeader (resp st')) ''Accept-Encoding'' value\<rparr>
             in call_next next (log_event (AcceptEncodingSet value) (st'\<lparr>resp := rw'\<rparr>))))"

text \<open>\<^verbatim>\<open>encodings\<close> as \<^verbatim>\<open>Decode\<close> builds it, by appending in a loop.\<close>

definition supported_encodings :: "('rd, 'o) config \<Rightarrow> string list" where
  "supported_encodings cfg =
     fold (\<lambda>d encodings. encodings @ [Encoding d]) (decoders cfg) [''br'', ''gzip'', ''zstd'']"

definition Decode ::
  "('rd, 'o) extern \<Rightarrow> ('rd, 'o) Option list \<Rightarrow> 'rd http_Handler \<Rightarrow>
   ResponseWriter \<Rightarrow> 'rd Request \<Rightarrow> 'rd state" where
  "Decode ext opts next rw rq =
     (let cfg = make_config opts;
          encodings = supported_encodings cfg;
          acceptEncoding = joinWithCommaSpace encodings
      in ServeHTTP ext cfg encodings acceptEncoding next rw rq)"

subsection \<open>Notions used to state the properties\<close>

text \<open>The tokens that a case of the \<^verbatim>\<open>switch\<close> names, so that \<^verbatim>\<open>default\<close> is not reached.\<close>

definition builtin_token :: "string \<Rightarrow> bool" where
  "builtin_token v = (v \<in> set [''br'', ''gzip'', ''x-gzip'', ''zstd'', [], ''identity''])"

text \<open>Processing a sequence of tokens from its first to its last, until a step returns.\<close>

fun run_tokens ::
  "('rd, 'o) extern \<Rightarrow> ('rd, 'o) config \<Rightarrow> string list \<Rightarrow> 'rd state \<Rightarrow> 'rd state flow" where
  "run_tokens ext cfg [] st = Continue st"
| "run_tokens ext cfg (v # vs) st =
     (case switch_encoding ext cfg v st of
        Return st' \<Rightarrow> Return st'
      | Continue st' \<Rightarrow> run_tokens ext cfg vs st')"

text \<open>The decoders registered for a token, with their indices, in registration order.\<close>

definition matching_decoders :: "string \<Rightarrow> 'rd Decoder list \<Rightarrow> (nat \<times> 'rd Decoder) list" where
  "matching_decoders v ds = filter (\<lambda>(idx, d). v = Encoding d) (zip [0..<length ds] ds)"

text \<open>
  A second description of the dispatch, for comparison with the handler. An outcome is
  what decoding comes to, without the handler's state: the steps made with their results,
  the error that ended it if one did, and the response writer and the request as the
  steps left them. \<open>then_outcome\<close> goes on with a second operation unless the first
  failed.
\<close>

record 'rd outcome =
  done_steps :: "(step \<times> error option) list"
  failed_with :: "error option"
  out_resp :: ResponseWriter
  out_req :: "'rd Request"

definition event_of :: "step \<times> error option \<Rightarrow> 'rd event" where
  "event_of s = Decoded (fst s) (snd s)"

definition then_outcome ::
  "'rd outcome \<Rightarrow> (ResponseWriter \<Rightarrow> 'rd Request \<Rightarrow> 'rd outcome) \<Rightarrow> 'rd outcome" where
  "then_outcome out f =
     (if failed_with out = None
      then (let out' = f (out_resp out) (out_req out)
            in out'\<lparr>done_steps := done_steps out @ done_steps out'\<rparr>)
      else out)"

text \<open>
  One call of a custom decoder's handler, and the calls of the handlers of a list of
  decoders from its first to its last, until one returns an error.
\<close>

definition invoke_Handler :: "nat \<Rightarrow> 'rd Decoder \<Rightarrow> ResponseWriter \<Rightarrow> 'rd Request \<Rightarrow> 'rd outcome" where
  "invoke_Handler idx d rw rq =
     (case Handler d rw rq of
        (err, rw', rq') \<Rightarrow>
          \<lparr>done_steps = [(Custom idx, err)], failed_with = err, out_resp = rw', out_req = rq'\<rparr>)"

fun apply_Handlers ::
  "(nat \<times> 'rd Decoder) list \<Rightarrow> ResponseWriter \<Rightarrow> 'rd Request \<Rightarrow> 'rd outcome" where
  "apply_Handlers [] rw rq = \<lparr>done_steps = [], failed_with = None, out_resp = rw, out_req = rq\<rparr>"
| "apply_Handlers ((idx, d) # rest) rw rq =
     then_outcome (invoke_Handler idx d rw rq) (apply_Handlers rest)"

text \<open>
  The decode operation that a token resolves to: the codec of a built-in name, nothing
  for the empty token and \<open>identity\<close>, and for any other token the handlers of the
  decoders registered for it. \<open>decode_tokens\<close> applies the operations of a sequence of
  tokens from its first to its last and stops at the first error.
\<close>

definition decoder_for ::
  "('rd, 'o) extern \<Rightarrow> ('rd, 'o) config \<Rightarrow> string \<Rightarrow> ResponseWriter \<Rightarrow> 'rd Request \<Rightarrow> 'rd outcome"
  where
  "decoder_for ext cfg v rw rq =
     (if v = ''br'' then
        \<lparr>done_steps = [(Brotli, None)], failed_with = None, out_resp = rw,
         out_req = rq\<lparr>Body := brotli_NewReader ext (Body rq)\<rparr>\<rparr>
      else if v = ''gzip'' \<or> v = ''x-gzip'' then
        (case gzip_NewReader ext (Body rq) of
           Inl err \<Rightarrow> \<lparr>done_steps = [(Gzip, Some err)], failed_with = Some err,
                        out_resp = rw, out_req = rq\<rparr>
         | Inr rd \<Rightarrow> \<lparr>done_steps = [(Gzip, None)], failed_with = None,
                       out_resp = rw, out_req = rq\<lparr>Body := rd\<rparr>\<rparr>)
      else if v = ''zstd'' then
        (case zstd_NewReader ext (Body rq) (dopts cfg) of
           Inl err \<Rightarrow> \<lparr>done_steps = [(Zstd, Some err)], failed_with = Some err,
                        out_resp = rw, out_req = rq\<rparr>
         | Inr rd \<Rightarrow> \<lparr>done_steps = [(Zstd, None)], failed_with = None,
                       out_resp = rw, out_req = rq\<lparr>Body := rd\<rparr>\<rparr>)
      else if v = [] \<or> v = ''identity'' then
        \<lparr>done_steps = [], failed_with = None, out_resp = rw, out_req = rq\<rparr>
      else apply_Handlers (matching_decoders v (decoders cfg)) rw rq)"

fun decode_tokens ::
  "('rd, 'o) extern \<Rightarrow> ('rd, 'o) config \<Rightarrow> string list \<Rightarrow> ResponseWriter \<Rightarrow> 'rd Request \<Rightarrow>
   'rd outcome" where
  "decode_tokens ext cfg [] rw rq =
     \<lparr>done_steps = [], failed_with = None, out_resp = rw, out_req = rq\<rparr>"
| "decode_tokens ext cfg (v # vs) rw rq =
     then_outcome (decoder_for ext cfg v rw rq) (decode_tokens ext cfg vs)"

text \<open>What an outcome is in the handler: the state, and the return through the error handler.\<close>

definition flow_of :: "('rd, 'o) config \<Rightarrow> 'rd state \<Rightarrow> 'rd outcome \<Rightarrow> 'rd state flow" where
  "flow_of cfg st out =
     (let st' = \<lparr>resp = out_resp out, req = out_req out,
                 trace = trace st @ map event_of (done_steps out)\<rparr>
      in case failed_with out of
           None \<Rightarrow> Continue st'
         | Some err \<Rightarrow> Return (call_errHandler cfg st' err))"

text \<open>
  What the middleware expects of a codec or a custom decoder: on a body that yields
  \<open>encode p\<close> when read to the end, the decode operation succeeds and leaves a body
  that yields \<open>p\<close>.
\<close>

definition inverts ::
  "('rd \<Rightarrow> error + string) \<Rightarrow> (ResponseWriter \<Rightarrow> 'rd Request \<Rightarrow> 'rd outcome) \<Rightarrow>
   (string \<Rightarrow> string) \<Rightarrow> bool" where
  "inverts ReadAll decoder encode =
     (\<forall>rw rq p. ReadAll (Body rq) = Inr (encode p) \<longrightarrow>
        failed_with (decoder rw rq) = None \<and> ReadAll (Body (out_req (decoder rw rq))) = Inr p)"

text \<open>
  The value of \<^verbatim>\<open>Accept-Encoding\<close> when every prior header counts as one and the
  tokens of all its values are merged: the fixed list when the response has no value
  for the header, the sorted union otherwise.
\<close>

definition claimed_AcceptEncoding :: "string list \<Rightarrow> string list \<Rightarrow> string" where
  "claimed_AcceptEncoding prior encodings =
     (if prior = [] then Join encodings '', ''
      else Join (sorted_list_of_set
                   (set (concat (map splitEncodingHeader prior)) \<union> set encodings)) '', '')"

text \<open>
  A tokenizer that strips all whitespace (the characters of \<^verbatim>\<open>unicode.IsSpace\<close> in
  ASCII) before it splits, for comparison with \<open>splitEncodingHeader\<close>.
\<close>

definition isSpace :: "char \<Rightarrow> bool" where
  "isSpace c = (c \<in> set [CHR 0x09, CHR 0x0A, CHR 0x0B, CHR 0x0C, CHR 0x0D, CHR '' ''])"

definition split_stripping_whitespace :: "string \<Rightarrow> string list" where
  "split_stripping_whitespace raw =
     (if raw = [] then [] else Split_comma (filter (\<lambda>c. \<not> isSpace c) raw))"

fun is_ErrHandled :: "'rd event \<Rightarrow> bool" where
  "is_ErrHandled (ErrHandled rw rq e) = True"
| "is_ErrHandled ev = False"

fun is_NextServed :: "'rd event \<Rightarrow> bool" where
  "is_NextServed (NextServed rw rq) = True"
| "is_NextServed ev = False"

fun is_AcceptEncodingSet :: "'rd event \<Rightarrow> bool" where
  "is_AcceptEncodingSet (AcceptEncodingSet v) = True"
| "is_AcceptEncodingSet ev = False"

text \<open>
  The shape of a trace. A step is \<open>legit\<close> when, if it is a custom decoder's, the decoder
  is registered under a token that no case of the \<^verbatim>\<open>switch\<close> names. A run that goes on
  has added successful legit steps only; a run that returns has added such steps, then
  one failed step that is not brotli's, then the call of the error handler on that
  step's error, and the state is what the error handler left.
\<close>

definition legit :: "('rd, 'o) config \<Rightarrow> step \<Rightarrow> bool" where
  "legit cfg k =
     (case k of
        Custom i \<Rightarrow> i < length (decoders cfg) \<and> \<not> builtin_token (Encoding (decoders cfg ! i))
      | _ \<Rightarrow> True)"

definition ok_steps :: "('rd, 'o) config \<Rightarrow> 'rd event list \<Rightarrow> bool" where
  "ok_steps cfg evs = (\<forall>ev\<in>set evs. \<exists>k. ev = Decoded k None \<and> legit cfg k)"

definition shape ::
  "('rd, 'o) config \<Rightarrow> 'rd ErrorHandler \<Rightarrow> 'rd event list \<Rightarrow> 'rd state flow \<Rightarrow> bool" where
  "shape cfg eh tr0 fl =
     (case fl of
        Continue st' \<Rightarrow> \<exists>evs. trace st' = tr0 @ evs \<and> ok_steps cfg evs
      | Return st' \<Rightarrow>
          \<exists>evs k e rw rq.
            trace st' = tr0 @ evs @ [Decoded k (Some e), ErrHandled rw rq e] \<and>
            ok_steps cfg evs \<and> legit cfg k \<and> k \<noteq> Brotli \<and> (resp st', req st') = eh rw rq e)"

subsection \<open>A small instance\<close>

text \<open>
  Stand-ins for the codec libraries, on readers that are the bytes still to be read: a
  gzip stream is \<open>G\<close> followed by the payload, a zstd stream \<open>Z\<close> followed by it, a
  brotli stream \<open>B\<close> followed by it. The gzip and zstd readers check the first byte when
  they are built; the brotli reader is built on any input.
\<close>

definition example_ext :: "(string, nat) extern" where
  "example_ext =
     \<lparr>brotli_NewReader = (\<lambda>rd. case rd of [] \<Rightarrow> [] | c # cs \<Rightarrow> if c = CHR ''B'' then cs else []),
      gzip_NewReader = (\<lambda>rd. case rd of [] \<Rightarrow> Inl (Error ''EOF'')
                          | c # cs \<Rightarrow> if c = CHR ''G'' then Inr cs else Inl (Error ''gzip: invalid header'')),
      zstd_NewReader = (\<lambda>rd opts. case rd of [] \<Rightarrow> Inl (Error ''EOF'')
                          | c # cs \<Rightarrow> if c = CHR ''Z'' then Inr cs else Inl (Error ''invalid input'')),
      map_iteration = [(0, 1)]\<rparr>"

definition example_ReadAll :: "string \<Rightarrow> error + string" where
  "example_ReadAll rd = Inr rd"

definition example_next :: "string http_Handler" where
  "example_next rw rq = (Fprintln rw (Body rq), rq)"

definition example_rw :: ResponseWriter where
  "example_rw = \<lparr>RHeader = (\<lambda>key. []), Status = None, Written = []\<rparr>"

definition example_request :: "string \<Rightarrow> string \<Rightarrow> string \<Rightarrow> string Request" where
  "example_request method encoding payload =
     \<lparr>Method = method,
      Header = (\<lambda>key. if key = ''Content-Encoding'' then [encoding] else []),
      Body = payload\<rparr>"

text \<open>The custom decoder of the package's tests appends a suffix to the body.\<close>

definition suffix_decoder :: "string \<Rightarrow> string \<Rightarrow> string Decoder" where
  "suffix_decoder encoding suffix =
     \<lparr>Encoding = encoding, Handler = (\<lambda>rw rq. (None, rw, rq\<lparr>Body := Body rq @ suffix\<rparr>))\<rparr>"

text \<open>A custom decoder that takes one leading byte off the body, and fails on any other body.\<close>

definition prefix_decoder :: "string \<Rightarrow> char \<Rightarrow> string Decoder" where
  "prefix_decoder encoding c =
     \<lparr>Encoding = encoding,
      Handler = (\<lambda>rw rq. case Body rq of
                   [] \<Rightarrow> (Some (Error ''custom: empty body''), rw, rq)
                 | x # xs \<Rightarrow> if x = c then (None, rw, rq\<lparr>Body := xs\<rparr>)
                             else (Some (Error ''custom: bad prefix''), rw, rq))\<rparr>"

section \<open>Properties\<close>

subsection \<open>Traces\<close>

lemma ok_steps_Nil [simp]: "ok_steps cfg []"
  by (simp add: ok_steps_def)

lemma ok_steps_append [simp]: "ok_steps cfg (xs @ ys) \<longleftrightarrow> ok_steps cfg xs \<and> ok_steps cfg ys"
  by (auto simp: ok_steps_def)

lemma ok_steps_single [simp]: "ok_steps cfg [Decoded k None] \<longleftrightarrow> legit cfg k"
  by (simp add: ok_steps_def)

lemma shape_Continue_refl: "shape cfg eh (trace st) (Continue st)"
  by (simp add: shape_def)

lemma shape_trans:
  assumes "shape cfg eh tr0 (Continue s)" and "shape cfg eh (trace s) fl"
  shows "shape cfg eh tr0 fl"
proof (cases fl)
  case (Continue st')
  from assms(1) obtain evs where a: "trace s = tr0 @ evs" "ok_steps cfg evs"
    by (auto simp: shape_def)
  from assms(2) Continue obtain evs' where b: "trace st' = trace s @ evs'" "ok_steps cfg evs'"
    by (auto simp: shape_def)
  from a b have "trace st' = tr0 @ (evs @ evs')" "ok_steps cfg (evs @ evs')" by simp_all
  then show ?thesis unfolding shape_def Continue by (simp only: flow.case) blast
next
  case (Return st')
  from assms(1) obtain evs where a: "trace s = tr0 @ evs" "ok_steps cfg evs"
    by (auto simp: shape_def)
  from assms(2) Return obtain evs' k e rw rq where b:
    "trace st' = trace s @ evs' @ [Decoded k (Some e), ErrHandled rw rq e]"
    "ok_steps cfg evs'" "legit cfg k" "k \<noteq> Brotli" "(resp st', req st') = eh rw rq e"
    by (auto simp: shape_def)
  from a b have "trace st' = tr0 @ (evs @ evs') @ [Decoded k (Some e), ErrHandled rw rq e]"
    "ok_steps cfg (evs @ evs')" by simp_all
  with b(3-5) show ?thesis unfolding shape_def Return by (simp only: flow.case) blast
qed

lemma call_errHandler_shape:
  assumes "errHandler cfg = Some eh" "legit cfg k" "k \<noteq> Brotli"
    and "trace st' = trace st @ [Decoded k (Some e)]"
  shows "shape cfg eh (trace st) (Return (call_errHandler cfg st' e))"
proof -
  obtain rw rq where eh: "eh (resp st') (req st') e = (rw, rq)" by (cases "eh (resp st') (req st') e")
  have "trace (call_errHandler cfg st' e) =
          trace st @ [] @ [Decoded k (Some e), ErrHandled (resp st') (req st') e]"
    and "(resp (call_errHandler cfg st' e), req (call_errHandler cfg st' e)) = eh (resp st') (req st') e"
    using assms(1,4) eh by (simp_all add: call_errHandler_def log_event_def)
  with assms(2,3) show ?thesis
    unfolding shape_def by (simp only: flow.case) (metis ok_steps_Nil)
qed

lemma range_decoders_shape:
  assumes "errHandler cfg = Some eh" "\<not> builtin_token v"
  shows "decoders cfg = pre @ ds \<Longrightarrow> idx = length pre \<Longrightarrow>
         shape cfg eh (trace st) (range_decoders cfg v ds idx st)"
proof (induction ds arbitrary: pre idx st)
  case Nil
  then show ?case by (simp add: shape_Continue_refl)
next
  case (Cons d rest)
  have nxt: "decoders cfg = (pre @ [d]) @ rest" "Suc idx = length (pre @ [d])"
    using Cons.prems by simp_all
  show ?case
  proof (cases "v = Encoding d")
    case False
    then show ?thesis using Cons.IH [OF nxt] by simp
  next
    case True
    have lg: "legit cfg (Custom idx)"
      using Cons.prems True assms(2) by (simp add: legit_def nth_append)
    obtain err rw rq where h: "Handler d (resp st) (req st) = (err, rw, rq)"
      by (cases "Handler d (resp st) (req st)")
    define st' where "st' = log_event (Decoded (Custom idx) err) (st\<lparr>resp := rw, req := rq\<rparr>)"
    have ch: "call_Handler d idx st = (err, st')"
      by (simp add: call_Handler_def h st'_def)
    have tr: "trace st' = trace st @ [Decoded (Custom idx) err]"
      by (simp add: st'_def log_event_def)
    show ?thesis
    proof (cases err)
      case None
      have "shape cfg eh (trace st) (Continue st')"
        unfolding shape_def using tr None lg by simp
      moreover have "shape cfg eh (trace st') (range_decoders cfg v rest (Suc idx) st')"
        by (rule Cons.IH [OF nxt])
      ultimately have "shape cfg eh (trace st) (range_decoders cfg v rest (Suc idx) st')"
        by (rule shape_trans)
      then show ?thesis using True ch None by simp
    next
      case (Some e)
      have "shape cfg eh (trace st) (Return (call_errHandler cfg st' e))"
        by (rule call_errHandler_shape [OF assms(1) lg]) (simp_all add: tr Some)
      then show ?thesis using True ch Some by simp
    qed
  qed
qed

lemma switch_encoding_shape:
  assumes "errHandler cfg = Some eh"
  shows "shape cfg eh (trace st) (switch_encoding ext cfg v st)"
proof -
  consider (br) "v = ''br''" | (gz) "v \<noteq> ''br''" "v = ''gzip'' \<or> v = ''x-gzip''"
    | (zs) "v \<noteq> ''br''" "\<not> (v = ''gzip'' \<or> v = ''x-gzip'')" "v = ''zstd''"
    | (idt) "v \<noteq> ''br''" "\<not> (v = ''gzip'' \<or> v = ''x-gzip'')" "v \<noteq> ''zstd''" "v = [] \<or> v = ''identity''"
    | (cust) "\<not> builtin_token v"
    by (auto simp: builtin_token_def)
  then show ?thesis
  proof cases
    case br
    then show ?thesis
      by (simp add: switch_encoding_def shape_def decompressBrotli_def log_event_def legit_def)
  next
    case gz
    show ?thesis
    proof (cases "gzip_NewReader ext (Body (req st))")
      case (Inl e)
      have "shape cfg eh (trace st) (Return (call_errHandler cfg (log_event (Decoded Gzip (Some e)) st) e))"
        by (rule call_errHandler_shape [OF assms]) (simp_all add: legit_def log_event_def)
      then show ?thesis using gz Inl by (simp add: switch_encoding_def decompressGzip_def)
    next
      case (Inr gr)
      then show ?thesis using gz
        by (simp add: switch_encoding_def decompressGzip_def shape_def log_event_def legit_def)
    qed
  next
    case zs
    show ?thesis
    proof (cases "zstd_NewReader ext (Body (req st)) (dopts cfg)")
      case (Inl e)
      have "shape cfg eh (trace st) (Return (call_errHandler cfg (log_event (Decoded Zstd (Some e)) st) e))"
        by (rule call_errHandler_shape [OF assms]) (simp_all add: legit_def log_event_def)
      then show ?thesis using zs Inl by (simp add: switch_encoding_def decompressZstd_def)
    next
      case (Inr zr)
      then show ?thesis using zs
        by (simp add: switch_encoding_def decompressZstd_def shape_def log_event_def legit_def)
    qed
  next
    case idt
    then show ?thesis by (auto simp add: switch_encoding_def shape_Continue_refl)
  next
    case cust
    have "shape cfg eh (trace st) (range_decoders cfg v (decoders cfg) 0 st)"
      by (rule range_decoders_shape [OF assms cust, where pre = "[]"]) simp_all
    moreover have "switch_encoding ext cfg v st = range_decoders cfg v (decoders cfg) 0 st"
      using cust by (auto simp: switch_encoding_def builtin_token_def)
    ultimately show ?thesis by simp
  qed
qed

lemma values_loop_shape:
  "errHandler cfg = Some eh \<Longrightarrow> i < int (length vals) \<Longrightarrow>
   shape cfg eh (trace st) (values_loop ext cfg vals i st)"
proof (induction ext cfg vals i st rule: values_loop.induct)
  case (1 ext cfg vals i st)
  show ?case
  proof (cases "i \<ge> 0")
    case False
    then show ?thesis by (simp add: shape_Continue_refl)
  next
    case True
    with "1.prems" have inr: "nat i < length vals" by simp
    have sw: "shape cfg eh (trace st) (switch_encoding ext cfg (vals ! nat i) st)"
      by (rule switch_encoding_shape [OF "1.prems"(1)])
    show ?thesis
    proof (cases "switch_encoding ext cfg (vals ! nat i) st")
      case (Return st')
      then show ?thesis using True inr sw by simp
    next
      case (Continue st')
      have "shape cfg eh (trace st') (values_loop ext cfg vals (i - 1) st')"
        using "1.IH" [OF True inr Continue] "1.prems" by simp
      with sw Continue have "shape cfg eh (trace st) (values_loop ext cfg vals (i - 1) st')"
        using shape_trans by metis
      then show ?thesis using True inr Continue by simp
    qed
  qed
qed

lemma fold_apply_Option_errHandler:
  "errHandler cfg \<noteq> None \<Longrightarrow> errHandler (fold apply_Option opts cfg) \<noteq> None"
proof (induction opts arbitrary: cfg)
  case Nil
  then show ?case by simp
next
  case (Cons opt opts)
  have "errHandler (apply_Option opt cfg) \<noteq> None"
    using Cons.prems by (cases opt) simp_all
  then show ?case using Cons.IH by simp
qed

lemma make_config_errHandler: "\<exists>eh. errHandler (make_config opts) = Some eh"
proof -
  have "errHandler (fold apply_Option opts (apply_Option (WithErrorHandler None) new_config)) \<noteq> None"
    by (rule fold_apply_Option_errHandler) simp
  then show ?thesis by (auto simp: make_config_def defaults_def)
qed

lemma Decode_get_head:
  assumes "Method rq = MethodGet \<or> Method rq = MethodHead"
  shows "Decode ext opts next rw rq = call_next next \<lparr>resp = rw, req = rq, trace = []\<rparr>"
  using assms by (auto simp: Decode_def ServeHTTP_def Let_def)

lemma trace_call_next: "trace (call_next next st) = trace st @ [NextServed (resp st) (req st)]"
  by (simp add: call_next_def log_event_def split: prod.splits)

text \<open>The three ways a request can go.\<close>

lemma Decode_trace_cases:
  fixes ext :: "('rd, 'o) extern"
  obtains
    (passed) "Method rq = MethodGet \<or> Method rq = MethodHead"
      "trace (Decode ext opts next rw rq) = [NextServed rw rq]"
  | (decoded) evs v rw' rq' where
      "trace (Decode ext opts next rw rq) = evs @ [AcceptEncodingSet v, NextServed rw' rq']"
      "ok_steps (make_config opts) evs"
  | (failed) evs k e rw' rq' eh where
      "trace (Decode ext opts next rw rq) = evs @ [Decoded k (Some e), ErrHandled rw' rq' e]"
      "ok_steps (make_config opts) evs" "legit (make_config opts) k" "k \<noteq> Brotli"
      "errHandler (make_config opts) = Some eh"
      "(resp (Decode ext opts next rw rq), req (Decode ext opts next rw rq)) = eh rw' rq' e"
proof (cases "Method rq = MethodGet \<or> Method rq = MethodHead")
  case True
  then have "trace (Decode ext opts next rw rq) = [NextServed rw rq]"
    by (simp add: Decode_get_head trace_call_next)
  with True show ?thesis by (rule passed)
next
  case False
  define cfg where "cfg = make_config opts"
  define vals where "vals = splitEncodingHeader (Header_Get (Header rq) ''Content-Encoding'')"
  define st0 :: "'rd state" where "st0 = \<lparr>resp = rw, req = rq, trace = []\<rparr>"
  obtain eh where eh: "errHandler cfg = Some eh"
    using make_config_errHandler cfg_def by blast
  have sh: "shape cfg eh (trace st0) (values_loop ext cfg vals (int (length vals) - 1) st0)"
    by (rule values_loop_shape [OF eh]) simp
  show ?thesis
  proof (cases "values_loop ext cfg vals (int (length vals) - 1) st0")
    case (Return st')
    have "Decode ext opts next rw rq = st'"
      using False Return by (simp add: Decode_def ServeHTTP_def Let_def cfg_def vals_def st0_def)
    moreover from sh Return obtain evs k e rw' rq' where
      "trace st' = evs @ [Decoded k (Some e), ErrHandled rw' rq' e]"
      "ok_steps cfg evs" "legit cfg k" "k \<noteq> Brotli" "(resp st', req st') = eh rw' rq' e"
      by (auto simp: shape_def st0_def)
    ultimately show ?thesis using eh failed unfolding cfg_def by metis
  next
    case (Continue st')
    from sh Continue obtain evs where evs: "trace st' = evs" "ok_steps cfg evs"
      by (auto simp: shape_def st0_def)
    have "\<exists>v rw'. trace (Decode ext opts next rw rq) = evs @ [AcceptEncodingSet v, NextServed rw' (req st')]"
      using False Continue evs(1)
      by (simp add: Decode_def ServeHTTP_def Let_def cfg_def vals_def st0_def trace_call_next log_event_def)
    then show ?thesis using evs(2) decoded unfolding cfg_def by metis
  qed
qed

subsection \<open>Strings\<close>

lemma Split_comma_not_Nil [simp]: "Split_comma s \<noteq> []"
  by (induction s) (auto split: list.splits)

lemma Join_Cons: "ts \<noteq> [] \<Longrightarrow> Join (t # ts) sep = t @ sep @ Join ts sep"
  by (cases ts) simp_all

lemma Join_Split_comma: "Join (Split_comma s) '','' = s"
proof (induction s)
  case Nil
  then show ?case by simp
next
  case (Cons c cs)
  obtain t ts where sp: "Split_comma cs = t # ts"
    by (cases "Split_comma cs") simp_all
  show ?case
  proof (cases "c = CHR '',''")
    case True
    then show ?thesis using Cons.IH by (simp add: Join_Cons)
  next
    case False
    have "Join ((c # t) # ts) '','' = c # Join (t # ts) '',''"
      by (cases ts) simp_all
    then show ?thesis using False sp Cons.IH by simp
  qed
qed

lemma Split_comma_no_comma: "t \<in> set (Split_comma s) \<Longrightarrow> CHR '','' \<notin> set t"
proof (induction s arbitrary: t)
  case Nil
  then show ?case by simp
next
  case (Cons c cs)
  obtain u us where sp: "Split_comma cs = u # us"
    by (cases "Split_comma cs") simp_all
  then have "CHR '','' \<notin> set u" "\<forall>x\<in>set us. CHR '','' \<notin> set x"
    using Cons.IH by simp_all
  then show ?case using Cons.prems sp by (auto split: if_splits)
qed

lemma Split_comma_subset: "t \<in> set (Split_comma s) \<Longrightarrow> set t \<subseteq> set s"
proof (induction s arbitrary: t)
  case Nil
  then show ?case by simp
next
  case (Cons c cs)
  obtain u us where sp: "Split_comma cs = u # us"
    by (cases "Split_comma cs") simp_all
  then have "set u \<subseteq> set cs" "\<forall>x\<in>set us. set x \<subseteq> set cs"
    using Cons.IH by simp_all
  then show ?case using Cons.prems sp by (auto split: if_splits)
qed

lemma length_Split_comma: "length (Split_comma s) = Suc (count_list s (CHR '',''))"
  by (induction s) (auto split: list.splits)

lemma Split_comma_single: "CHR '','' \<notin> set a \<Longrightarrow> Split_comma a = [a]"
  by (induction a) auto

lemma Split_comma_append:
  "CHR '','' \<notin> set a \<Longrightarrow> Split_comma (a @ CHR '','' # b) = a # Split_comma b"
  by (induction a) auto

lemma noSpace_Replace_id: "CHR '' '' \<notin> set a \<Longrightarrow> noSpace_Replace a = a"
  by (induction a) (auto simp: noSpace_Replace_def)

lemma count_comma_noSpace_Replace:
  "count_list (noSpace_Replace raw) (CHR '','') = count_list raw (CHR '','')"
  by (induction raw) (auto simp: noSpace_Replace_def)

lemma splitEncodingHeader_pair:
  assumes "CHR '','' \<notin> set a" "CHR '' '' \<notin> set a" "CHR '','' \<notin> set b" "CHR '' '' \<notin> set b"
  shows "splitEncodingHeader (a @ '', '' @ b) = [a, b]"
proof -
  have "noSpace_Replace (a @ '', '' @ b) = noSpace_Replace a @ '','' @ noSpace_Replace b"
    by (simp add: noSpace_Replace_def)
  then have "noSpace_Replace (a @ '', '' @ b) = a @ CHR '','' # b"
    using assms(2,4) by (simp add: noSpace_Replace_id)
  then show ?thesis
    using assms(1,3) by (simp add: splitEncodingHeader_def Split_comma_append Split_comma_single)
qed

lemma Split_comma_Join:
  "toks \<noteq> [] \<Longrightarrow> \<forall>t\<in>set toks. CHR '','' \<notin> set t \<Longrightarrow> Split_comma (Join toks '','') = toks"
proof (induction toks)
  case Nil
  then show ?case by simp
next
  case (Cons t toks)
  show ?case
  proof (cases toks)
    case Nil
    then show ?thesis using Cons.prems by (simp add: Split_comma_single)
  next
    case (Cons u us)
    then have "Join (t # toks) '','' = t @ CHR '','' # Join toks '',''" by simp
    moreover have "Split_comma (Join toks '','') = toks"
      using Cons.IH Cons.prems Cons by simp
    ultimately show ?thesis using Cons.prems by (simp add: Split_comma_append)
  qed
qed

subsection \<open>Merging the supported encodings into a header value\<close>

lemma mset_swap_keys: "mset (swap_keys p ks) = mset ks"
  by (simp add: swap_keys_def mset_swap)

lemma mset_strset_List: "mset (strset_List order s) = mset s"
  by (induction order arbitrary: s) (simp_all add: strset_List_def mset_swap_keys)

lemma sort_strset_List: "sort (strset_List order s) = sort s"
  by (rule properties_for_sort) (simp_all add: mset_strset_List)

lemma mergeAcceptEncoding_eq:
  "mergeAcceptEncoding order raw adds =
     (if raw = [] then Join adds '', ''
      else Join (sorted_list_of_set (set (splitEncodingHeader raw) \<union> set adds)) '', '')"
proof (cases "raw = []")
  case True
  then show ?thesis
    by (simp add: mergeAcceptEncoding_def splitEncodingHeader_def joinWithCommaSpace_def)
next
  case False
  define cur where "cur = splitEncodingHeader raw"
  have ne: "cur \<noteq> []" using False by (simp add: cur_def splitEncodingHeader_def)
  have "sort (remdups (remdups cur @ remdups adds)) =
          sorted_list_of_set (set (remdups cur @ remdups adds))"
    by (simp only: sorted_list_of_set_sort_remdups)
  then have "sort (strset_List order (remdups (remdups cur @ remdups adds))) =
          sorted_list_of_set (set cur \<union> set adds)"
    by (simp add: sort_strset_List)
  then show ?thesis using False ne
    by (simp add: mergeAcceptEncoding_def Let_def cur_def [symmetric] strset_Merge_def
        strset_New_def sort_Strings_def joinWithCommaSpace_def)
qed

subsection \<open>The loop\<close>

lemma values_loop_run_tokens:
  "i < int (length vals) \<Longrightarrow>
   values_loop ext cfg vals i st = run_tokens ext cfg (rev (take (nat (i + 1)) vals)) st"
proof (induction ext cfg vals i st rule: values_loop.induct)
  case (1 ext cfg vals i st)
  show ?case
  proof (cases "i \<ge> 0")
    case False
    then show ?thesis by simp
  next
    case True
    with "1.prems" have inr: "nat i < length vals" by simp
    have n: "nat (i + 1) = Suc (nat i)" using True by simp
    have tk: "rev (take (nat (i + 1)) vals) = vals ! nat i # rev (take (nat i) vals)"
      unfolding n using inr by (simp add: take_Suc_conv_app_nth)
    have m: "nat (i - 1 + 1) = nat i" by simp
    show ?thesis
    proof (cases "switch_encoding ext cfg (vals ! nat i) st")
      case (Return st')
      then show ?thesis using True inr tk by simp
    next
      case (Continue st')
      have "values_loop ext cfg vals (i - 1) st' = run_tokens ext cfg (rev (take (nat i) vals)) st'"
        using "1.IH" [OF True inr Continue] "1.prems" m by simp
      then show ?thesis using True inr tk Continue by simp
    qed
  qed
qed

lemma values_loop_rev:
  "values_loop ext cfg vals (int (length vals) - 1) st = run_tokens ext cfg (rev vals) st"
  using values_loop_run_tokens [of "int (length vals) - 1" vals ext cfg st] by simp

lemma Decode_Continue:
  assumes "Method rq \<noteq> MethodGet" "Method rq \<noteq> MethodHead"
    and "values_loop ext (make_config opts)
           (splitEncodingHeader (Header_Get (Header rq) ''Content-Encoding''))
           (int (length (splitEncodingHeader (Header_Get (Header rq) ''Content-Encoding''))) - 1)
           \<lparr>resp = rw, req = rq, trace = []\<rparr> = Continue st'"
    and "v = (if Header_Get (RHeader (resp st')) ''Accept-Encoding'' = []
              then joinWithCommaSpace (supported_encodings (make_config opts))
              else mergeAcceptEncoding (map_iteration ext)
                     (Header_Get (RHeader (resp st')) ''Accept-Encoding'')
                     (supported_encodings (make_config opts)))"
  shows "trace (Decode ext opts next rw rq) =
           trace st' @ [AcceptEncodingSet v,
             NextServed ((resp st')\<lparr>RHeader := (RHeader (resp st'))(''Accept-Encoding'' := [v])\<rparr>) (req st')]"
  using assms(1,2,3) unfolding assms(4)
  by (simp add: Decode_def ServeHTTP_def Let_def trace_call_next log_event_def Header_Set_def)

lemma supported_encodings_fold:
  "fold (\<lambda>d encodings. encodings @ [Encoding d]) ds acc = acc @ map Encoding ds"
  by (induction ds arbitrary: acc) simp_all

lemma supported_encodings_eq:
  "supported_encodings cfg = [''br'', ''gzip'', ''zstd''] @ map Encoding (decoders cfg)"
  unfolding supported_encodings_def by (rule supported_encodings_fold)

declare values_loop.simps [simp del]

subsection \<open>Custom decoders and tokens without effect\<close>

lemma range_decoders_no_match:
  "v \<notin> Encoding ` set ds \<Longrightarrow> range_decoders cfg v ds idx st = Continue st"
  by (induction ds arbitrary: idx) auto

lemma switch_encoding_default:
  "\<not> builtin_token v \<Longrightarrow> switch_encoding ext cfg v st = range_decoders cfg v (decoders cfg) 0 st"
  by (auto simp: switch_encoding_def builtin_token_def)

lemma switch_encoding_identity:
  "v = [] \<or> v = ''identity'' \<Longrightarrow> switch_encoding ext cfg v st = Continue st"
  by (auto simp: switch_encoding_def)

lemma switch_encoding_unknown:
  "\<not> builtin_token v \<Longrightarrow> v \<notin> Encoding ` set (decoders cfg) \<Longrightarrow>
   switch_encoding ext cfg v st = Continue st"
  by (simp add: switch_encoding_default range_decoders_no_match)

lemma run_tokens_without_effect:
  "\<forall>t\<in>set vs. t = [] \<or> t = ''identity'' \<or>
               (\<not> builtin_token t \<and> t \<notin> Encoding ` set (decoders cfg)) \<Longrightarrow>
   run_tokens ext cfg vs st = Continue st"
proof (induction vs)
  case Nil
  then show ?case by simp
next
  case (Cons t vs)
  then have "switch_encoding ext cfg t st = Continue st"
    using switch_encoding_identity switch_encoding_unknown by (metis list.set_intros(1))
  then show ?case using Cons by simp
qed

lemma switch_encoding_br:
  "switch_encoding ext cfg ''br'' st = Continue (decompressBrotli ext st)"
  by (simp add: switch_encoding_def)

lemma switch_encoding_gzip_fails:
  assumes "v = ''gzip'' \<or> v = ''x-gzip''" and "gzip_NewReader ext (Body (req st)) = Inl e"
    and "errHandler cfg = Some eh"
  shows "\<exists>st'. switch_encoding ext cfg v st = Return st' \<and>
           trace st' = trace st @ [Decoded Gzip (Some e), ErrHandled (resp st) (req st) e]"
  using assms
  by (auto simp: switch_encoding_def decompressGzip_def call_errHandler_def log_event_def
      split: prod.splits)

lemma switch_encoding_zstd_fails:
  assumes "zstd_NewReader ext (Body (req st)) (dopts cfg) = Inl e"
    and "errHandler cfg = Some eh"
  shows "\<exists>st'. switch_encoding ext cfg ''zstd'' st = Return st' \<and>
           trace st' = trace st @ [Decoded Zstd (Some e), ErrHandled (resp st) (req st) e]"
  using assms
  by (auto simp: switch_encoding_def decompressZstd_def call_errHandler_def log_event_def
      split: prod.splits)

subsection \<open>The handler and the second description\<close>

lemma state_updates:
  fixes st :: "'rd state"
  shows "st\<lparr>resp := a, req := b, trace := t\<rparr> = \<lparr>resp = a, req = b, trace = t\<rparr>"
    and "st\<lparr>trace := t\<rparr> = \<lparr>resp = resp st, req = req st, trace = t\<rparr>"
    and "st\<lparr>req := b, trace := t\<rparr> = \<lparr>resp = resp st, req = b, trace = t\<rparr>"
  by (cases st, simp)+

lemma flow_of_then_outcome:
  "flow_of cfg st (then_outcome out f) =
     (case flow_of cfg st out of
        Return s \<Rightarrow> Return s
      | Continue s \<Rightarrow> flow_of cfg s (f (resp s) (req s)))"
  by (cases "failed_with out") (simp_all add: flow_of_def then_outcome_def Let_def)

lemma flow_of_invoke_Handler:
  "flow_of cfg st (invoke_Handler idx d (resp st) (req st)) =
     (case call_Handler d idx st of
        (Some err, st') \<Rightarrow> Return (call_errHandler cfg st' err)
      | (None, st') \<Rightarrow> Continue st')"
  by (simp add: flow_of_def invoke_Handler_def call_Handler_def log_event_def event_of_def Let_def
      state_updates split: prod.splits option.splits)

lemma flow_of_unit:
  "flow_of cfg st \<lparr>done_steps = [], failed_with = None, out_resp = resp st, out_req = req st\<rparr> =
     Continue st"
  by (simp add: flow_of_def)

lemma range_decoders_refines:
  "range_decoders cfg v ds idx st =
     flow_of cfg st
       (apply_Handlers (filter (\<lambda>(i, d). v = Encoding d) (zip [idx..<idx + length ds] ds))
          (resp st) (req st))"
proof (induction ds arbitrary: idx st)
  case Nil
  then show ?case by (simp add: flow_of_unit)
next
  case (Cons d rest)
  have "[idx..<idx + length (d # rest)] = idx # [Suc idx..<Suc idx + length rest]"
    by (simp add: upt_conv_Cons del: upt_Suc)
  then have zp: "zip [idx..<idx + length (d # rest)] (d # rest) =
                   (idx, d) # zip [Suc idx..<Suc idx + length rest] rest"
    by (simp only: zip_Cons_Cons)
  show ?case
  proof (cases "v = Encoding d")
    case False
    then show ?thesis unfolding zp using Cons.IH [of "Suc idx" st] by simp
  next
    case True
    show ?thesis
    proof (cases "call_Handler d idx st")
      case (Pair err st')
      have rs: "resp st' = fst (snd (Handler d (resp st) (req st)))"
        "req st' = snd (snd (Handler d (resp st) (req st)))"
        using Pair by (auto simp: call_Handler_def log_event_def split: prod.splits)
      show ?thesis
        unfolding zp using True Pair Cons.IH [of "Suc idx" st']
        by (cases err)
           (simp_all add: flow_of_then_outcome flow_of_invoke_Handler del: upt_Suc)
    qed
  qed
qed

lemma switch_encoding_refines:
  "switch_encoding ext cfg v st = flow_of cfg st (decoder_for ext cfg v (resp st) (req st))"
proof -
  consider (br) "v = ''br''" | (gz) "v \<noteq> ''br''" "v = ''gzip'' \<or> v = ''x-gzip''"
    | (zs) "v \<noteq> ''br''" "\<not> (v = ''gzip'' \<or> v = ''x-gzip'')" "v = ''zstd''"
    | (idt) "v \<noteq> ''br''" "\<not> (v = ''gzip'' \<or> v = ''x-gzip'')" "v \<noteq> ''zstd''" "v = [] \<or> v = ''identity''"
    | (cust) "\<not> builtin_token v"
    by (auto simp: builtin_token_def)
  then show ?thesis
  proof cases
    case br
    then show ?thesis
      by (simp add: switch_encoding_def decoder_for_def flow_of_def decompressBrotli_def
          log_event_def event_of_def NopCloser_def state_updates)
  next
    case gz
    then show ?thesis
      by (cases "gzip_NewReader ext (Body (req st))")
         (simp_all add: switch_encoding_def decoder_for_def flow_of_def decompressGzip_def
          log_event_def event_of_def state_updates)
  next
    case zs
    then show ?thesis
      by (cases "zstd_NewReader ext (Body (req st)) (dopts cfg)")
         (simp_all add: switch_encoding_def decoder_for_def flow_of_def decompressZstd_def
          log_event_def event_of_def NopCloser_def state_updates)
  next
    case idt
    then have "decoder_for ext cfg v (resp st) (req st) =
        \<lparr>done_steps = [], failed_with = None, out_resp = resp st, out_req = req st\<rparr>"
      by (auto simp: decoder_for_def)
    then show ?thesis using idt by (simp add: flow_of_unit switch_encoding_identity)
  next
    case cust
    then have "decoder_for ext cfg v (resp st) (req st) =
        apply_Handlers (matching_decoders v (decoders cfg)) (resp st) (req st)"
      by (auto simp: decoder_for_def builtin_token_def)
    then show ?thesis
      using cust range_decoders_refines [of cfg v "decoders cfg" 0 st]
      by (simp add: switch_encoding_default matching_decoders_def)
  qed
qed

lemma run_tokens_refines:
  "run_tokens ext cfg vs st = flow_of cfg st (decode_tokens ext cfg vs (resp st) (req st))"
proof (induction vs arbitrary: st)
  case Nil
  then show ?case by (simp add: flow_of_unit)
next
  case (Cons v vs)
  show ?case
    by (simp add: flow_of_then_outcome switch_encoding_refines [symmetric] Cons.IH
        split: flow.splits)
qed

lemma values_loop_refines:
  "values_loop ext cfg vals (int (length vals) - 1) st =
     flow_of cfg st (decode_tokens ext cfg (rev vals) (resp st) (req st))"
  by (simp only: values_loop_rev run_tokens_refines)

lemma Decode_refines:
  assumes "Method rq \<noteq> MethodGet" "Method rq \<noteq> MethodHead"
    and "errHandler (make_config opts) = Some eh"
    and "out = decode_tokens ext (make_config opts)
                 (rev (splitEncodingHeader (Header_Get (Header rq) ''Content-Encoding''))) rw rq"
  shows "Decode ext opts next rw rq =
     (case failed_with out of
        Some err \<Rightarrow>
          \<lparr>resp = fst (eh (out_resp out) (out_req out) err),
           req = snd (eh (out_resp out) (out_req out) err),
           trace = map event_of (done_steps out) @ [ErrHandled (out_resp out) (out_req out) err]\<rparr>
      | None \<Rightarrow>
          (let current = Header_Get (RHeader (out_resp out)) ''Accept-Encoding'';
               v = (if current = [] then joinWithCommaSpace (supported_encodings (make_config opts))
                    else mergeAcceptEncoding (map_iteration ext) current
                           (supported_encodings (make_config opts)));
               rwf = (out_resp out)\<lparr>RHeader := (RHeader (out_resp out))(''Accept-Encoding'' := [v])\<rparr>
           in \<lparr>resp = fst (next rwf (out_req out)), req = snd (next rwf (out_req out)),
               trace = map event_of (done_steps out) @ [AcceptEncodingSet v, NextServed rwf (out_req out)]\<rparr>))"
proof -
  let ?vals = "splitEncodingHeader (Header_Get (Header rq) ''Content-Encoding'')"
  let ?st0 = "\<lparr>resp = rw, req = rq, trace = []\<rparr> :: 'a state"
  have loop: "values_loop ext (make_config opts) ?vals (int (length ?vals) - 1) ?st0 =
                flow_of (make_config opts) ?st0 out"
    unfolding assms(4) using values_loop_refines [of ext "make_config opts" ?vals ?st0] by simp
  show ?thesis
  proof (cases "failed_with out")
    case None
    then show ?thesis
      using assms(1,2) loop
      by (simp add: Decode_def ServeHTTP_def Let_def flow_of_def call_next_def log_event_def
          Header_Set_def split: prod.splits)
  next
    case (Some err)
    then show ?thesis
      using assms(1,2,3) loop
      by (simp add: Decode_def ServeHTTP_def Let_def flow_of_def call_errHandler_def log_event_def
          split: prod.splits)
  qed
qed

lemma then_outcome_unit:
  "then_outcome out
     (\<lambda>rw rq. \<lparr>done_steps = [], failed_with = None, out_resp = rw, out_req = rq\<rparr>) = out"
  by (cases out) (simp add: then_outcome_def)

lemma decode_tokens_single: "decode_tokens ext cfg [v] rw rq = decoder_for ext cfg v rw rq"
proof -
  have "decode_tokens ext cfg [] =
          (\<lambda>rw rq. \<lparr>done_steps = [], failed_with = None, out_resp = rw, out_req = rq\<rparr>)"
    by (intro ext) simp
  then show ?thesis by (simp add: then_outcome_unit)
qed

lemma decode_tokens_pair:
  "decode_tokens ext cfg [b, a] rw rq =
     then_outcome (decoder_for ext cfg b rw rq) (decoder_for ext cfg a)"
proof -
  have "decode_tokens ext cfg [a] = decoder_for ext cfg a"
    by (intro ext) (rule decode_tokens_single)
  then show ?thesis by simp
qed

lemma map_event_of_snoc:
  fixes evs :: "'rd event list"
  assumes "map event_of steps = evs @ [Decoded k r]"
  shows "\<exists>pre. steps = pre @ [(k, r)] \<and> map event_of pre = evs"
proof (cases steps rule: rev_cases)
  case Nil
  with assms show ?thesis by simp
next
  case (snoc pre s)
  with assms have "map event_of pre = evs" "(event_of s :: 'rd event) = Decoded k r"
    by simp_all
  moreover from this(2) have "s = (k, r)" by (cases s) (simp add: event_of_def)
  ultimately show ?thesis using snoc by simp
qed

lemma ok_steps_map_event_of:
  "ok_steps cfg (map event_of pre) \<Longrightarrow> \<forall>s\<in>set pre. snd s = None"
  by (auto simp: ok_steps_def event_of_def)

text \<open>Without custom decoders only the body of the request changes.\<close>

lemma decoder_for_no_decoders:
  assumes "decoders cfg = []"
  shows "out_resp (decoder_for ext cfg v rw rq) = rw \<and>
         Method (out_req (decoder_for ext cfg v rw rq)) = Method rq \<and>
         Header (out_req (decoder_for ext cfg v rw rq)) = Header rq"
  using assms by (auto simp: decoder_for_def matching_decoders_def split: sum.splits)

lemma decode_tokens_no_decoders:
  assumes "decoders cfg = []"
  shows "out_resp (decode_tokens ext cfg vs rw rq) = rw \<and>
         Method (out_req (decode_tokens ext cfg vs rw rq)) = Method rq \<and>
         Header (out_req (decode_tokens ext cfg vs rw rq)) = Header rq"
proof (induction vs arbitrary: rq)
  case Nil
  then show ?case by simp
next
  case (Cons v vs)
  let ?o = "decoder_for ext cfg v rw rq"
  have d: "out_resp ?o = rw" "Method (out_req ?o) = Method rq" "Header (out_req ?o) = Header rq"
    using decoder_for_no_decoders [OF assms, of ext v rw rq] by simp_all
  show ?case
  proof (cases "failed_with ?o")
    case None
    then show ?thesis
      using d Cons.IH [of "out_req ?o"] by (simp add: then_outcome_def Let_def)
  next
    case (Some e)
    then show ?thesis using d by (simp add: then_outcome_def)
  qed
qed

lemma Decode_not_passed:
  assumes "Decoded k r \<in> set (trace (Decode ext opts next rw rq))"
  shows "Method rq \<noteq> MethodGet \<and> Method rq \<noteq> MethodHead"
proof (rule ccontr)
  assume "\<not> ?thesis"
  then have "trace (Decode ext opts next rw rq) = [NextServed rw rq]"
    by (auto simp: Decode_get_head trace_call_next)
  with assms show False by simp
qed

lemma apply_Handlers_all:
  "failed_with (apply_Handlers ms rw rq) = None \<Longrightarrow>
   map fst (done_steps (apply_Handlers ms rw rq)) = map (\<lambda>(i, d). Custom i) ms"
proof (induction ms arbitrary: rw rq)
  case Nil
  then show ?case by simp
next
  case (Cons m ms)
  obtain i d where m: "m = (i, d)" by (cases m)
  obtain err rw' rq' where h: "Handler d rw rq = (err, rw', rq')" by (cases "Handler d rw rq")
  show ?case
  proof (cases err)
    case None
    with Cons.prems m h have "failed_with (apply_Handlers ms rw' rq') = None"
      by (simp add: then_outcome_def invoke_Handler_def Let_def)
    from Cons.IH [OF this] show ?thesis
      using m h None by (simp add: then_outcome_def invoke_Handler_def Let_def)
  next
    case (Some e)
    with Cons.prems m h show ?thesis
      by (simp add: then_outcome_def invoke_Handler_def)
  qed
qed

lemma decoder_for_custom:
  "\<not> builtin_token v \<Longrightarrow>
   decoder_for ext cfg v rw rq = apply_Handlers (matching_decoders v (decoders cfg)) rw rq"
  by (auto simp: decoder_for_def builtin_token_def)

subsection \<open>Evaluation on the small instance\<close>

lemmas handler_defs =
  Decode_def ServeHTTP_def Let_def make_config_def defaults_def new_config_def
  splitEncodingHeader_def noSpace_Replace_def Header_Get_def Header_Set_def MethodGet_def
  MethodHead_def switch_encoding_def decompressBrotli_def decompressGzip_def
  decompressZstd_def call_Handler_def call_errHandler_def call_next_def log_event_def
  NopCloser_def values_loop.simps supported_encodings_def joinWithCommaSpace_def
  DefaultErrorHandler_def

lemmas example_defs =
  example_ext_def example_next_def example_rw_def example_request_def suffix_decoder_def
  example_ReadAll_def prefix_decoder_def

lemmas outcome_defs =
  then_outcome_def decoder_for_def invoke_Handler_def matching_decoders_def event_of_def Let_def
  make_config_def defaults_def new_config_def splitEncodingHeader_def noSpace_Replace_def
  Header_Get_def builtin_token_def

section \<open>The claims\<close>

text \<open>
  Claim C1. For a request that is neither GET nor HEAD, the handler applies the decode
  operations of the tokens of \<^verbatim>\<open>Content-Encoding\<close> from the last token to the first:
  when none of them fails, it writes \<^verbatim>\<open>Accept-Encoding\<close> and calls the next handler on
  the response writer and the request that the operations of the reversed token list
  leave, and the trace lists their steps in that order. For a header value \<open>A, B\<close> of any
  two tokens, built-in or custom, that is the operation of \<open>B\<close> followed by the
  operation of \<open>A\<close> on what \<open>B\<close> left. When both operations invert their encoders
  and the body was encoded with \<open>A\<close> and then with \<open>B\<close>, none fails and the body
  handed to the next handler yields the original payload when it is read to the end.
\<close>

theorem reverse_order_roundtrip:
  assumes "Method rq \<noteq> MethodGet" and "Method rq \<noteq> MethodHead"
    and "out = decode_tokens ext (make_config opts)
                 (rev (splitEncodingHeader (Header_Get (Header rq) ''Content-Encoding''))) rw rq"
  shows "(failed_with out = None \<longrightarrow>
           (\<exists>v. Decode ext opts next rw rq =
              \<lparr>resp = fst (next ((out_resp out)\<lparr>RHeader :=
                          (RHeader (out_resp out))(''Accept-Encoding'' := [v])\<rparr>) (out_req out)),
               req = snd (next ((out_resp out)\<lparr>RHeader :=
                          (RHeader (out_resp out))(''Accept-Encoding'' := [v])\<rparr>) (out_req out)),
               trace = map event_of (done_steps out) @
                 [AcceptEncodingSet v,
                  NextServed ((out_resp out)\<lparr>RHeader :=
                          (RHeader (out_resp out))(''Accept-Encoding'' := [v])\<rparr>) (out_req out)]\<rparr>)) \<and>
         (Header_Get (Header rq) ''Content-Encoding'' = A @ '', '' @ B \<and>
          CHR '','' \<notin> set (A @ B) \<and> CHR '' '' \<notin> set (A @ B) \<longrightarrow>
            out = then_outcome (decoder_for ext (make_config opts) B rw rq)
                    (decoder_for ext (make_config opts) A) \<and>
            (inverts ReadAll (decoder_for ext (make_config opts) A) encodeA \<and>
             inverts ReadAll (decoder_for ext (make_config opts) B) encodeB \<and>
             ReadAll (Body rq) = Inr (encodeB (encodeA payload)) \<longrightarrow>
               failed_with out = None \<and> ReadAll (Body (out_req out)) = Inr payload))"
proof (intro conjI impI)
  assume ok: "failed_with out = None"
  obtain eh where eh: "errHandler (make_config opts) = Some eh"
    using make_config_errHandler by blast
  show "\<exists>v. Decode ext opts next rw rq =
              \<lparr>resp = fst (next ((out_resp out)\<lparr>RHeader :=
                          (RHeader (out_resp out))(''Accept-Encoding'' := [v])\<rparr>) (out_req out)),
               req = snd (next ((out_resp out)\<lparr>RHeader :=
                          (RHeader (out_resp out))(''Accept-Encoding'' := [v])\<rparr>) (out_req out)),
               trace = map event_of (done_steps out) @
                 [AcceptEncodingSet v,
                  NextServed ((out_resp out)\<lparr>RHeader :=
                          (RHeader (out_resp out))(''Accept-Encoding'' := [v])\<rparr>) (out_req out)]\<rparr>"
    using Decode_refines [OF assms(1,2) eh assms(3), of "next"] ok
    by (simp add: Let_def)
next
  assume h: "Header_Get (Header rq) ''Content-Encoding'' = A @ '', '' @ B \<and>
          CHR '','' \<notin> set (A @ B) \<and> CHR '' '' \<notin> set (A @ B)"
  from h have hd: "Header_Get (Header rq) ''Content-Encoding'' = A @ '', '' @ B"
    and ch: "CHR '','' \<notin> set A" "CHR '' '' \<notin> set A" "CHR '','' \<notin> set B" "CHR '' '' \<notin> set B"
    by simp_all
  have sp: "splitEncodingHeader (Header_Get (Header rq) ''Content-Encoding'') = [A, B]"
    unfolding hd by (rule splitEncodingHeader_pair [OF ch])
  show pair: "out = then_outcome (decoder_for ext (make_config opts) B rw rq)
                    (decoder_for ext (make_config opts) A)"
    unfolding assms(3) sp by (simp only: rev.simps append.simps decode_tokens_pair)
  assume r: "inverts ReadAll (decoder_for ext (make_config opts) A) encodeA \<and>
             inverts ReadAll (decoder_for ext (make_config opts) B) encodeB \<and>
             ReadAll (Body rq) = Inr (encodeB (encodeA payload))"
  let ?dB = "decoder_for ext (make_config opts) B rw rq"
  let ?dA = "decoder_for ext (make_config opts) A (out_resp ?dB) (out_req ?dB)"
  from r have b: "failed_with ?dB = None" "ReadAll (Body (out_req ?dB)) = Inr (encodeA payload)"
    unfolding inverts_def by blast+
  from r b(2) have a: "failed_with ?dA = None" "ReadAll (Body (out_req ?dA)) = Inr payload"
    unfolding inverts_def by blast+
  show "failed_with out = None" "ReadAll (Body (out_req out)) = Inr payload"
    unfolding pair using a b(1) by (simp_all add: then_outcome_def Let_def)
qed

text \<open>The header \<open>x-custom, gzip\<close> with a custom decoder for \<open>x-custom\<close>, on a body that was encoded with it and then with gzip.\<close>

theorem reverse_order_roundtrip_witness:
  "\<exists>v rwf rq'.
     trace (Decode example_ext [WithDecoder [prefix_decoder ''x-custom'' (CHR ''C'')]]
              example_next example_rw (example_request ''POST'' ''x-custom, gzip'' ''GCtest'')) =
       [Decoded Gzip None, Decoded (Custom 0) None, AcceptEncodingSet v, NextServed rwf rq'] \<and>
     example_ReadAll (Body rq') = Inr ''test'' \<and>
     Body (req (Decode example_ext [WithDecoder [prefix_decoder ''x-custom'' (CHR ''C'')]]
              example_next example_rw (example_request ''POST'' ''x-custom, gzip'' ''GCtest''))) =
       ''test''"
proof -
  let ?opts = "[WithDecoder [prefix_decoder ''x-custom'' (CHR ''C'')]] :: (string, nat) Option list"
  let ?rq = "example_request ''POST'' ''x-custom, gzip'' ''GCtest''"
  let ?out = "decode_tokens example_ext (make_config ?opts)
                (rev (splitEncodingHeader (Header_Get (Header ?rq) ''Content-Encoding'')))
                example_rw ?rq"
  have m: "Method ?rq \<noteq> MethodGet" "Method ?rq \<noteq> MethodHead"
    by (simp_all add: example_defs MethodGet_def MethodHead_def)
  have h: "Header_Get (Header ?rq) ''Content-Encoding'' = ''x-custom'' @ '', '' @ ''gzip'' \<and>
           CHR '','' \<notin> set (''x-custom'' @ ''gzip'') \<and> CHR '' '' \<notin> set (''x-custom'' @ ''gzip'')"
    by (simp add: example_defs Header_Get_def)
  have iA: "inverts example_ReadAll (decoder_for example_ext (make_config ?opts) ''x-custom'')
              ((#) (CHR ''C''))"
    by (simp add: inverts_def outcome_defs example_defs upt_rec [of 0] upt_rec [of 1])
  have iB: "inverts example_ReadAll (decoder_for example_ext (make_config ?opts) ''gzip'')
              ((#) (CHR ''G''))"
    by (simp add: inverts_def outcome_defs example_defs)
  have b: "example_ReadAll (Body ?rq) = Inr (CHR ''G'' # CHR ''C'' # ''test'')"
    by (simp add: example_defs)
  have ds: "done_steps ?out = [(Gzip, None), (Custom 0, None)]"
    by (simp add: outcome_defs example_defs upt_rec [of 0] upt_rec [of 1])
  note T = reverse_order_roundtrip [OF m refl, of example_ext ?opts example_rw example_next
      "''x-custom''" "''gzip''" example_ReadAll "(#) (CHR ''C'')" "(#) (CHR ''G'')" "''test''"]
  from T h iA iB b have ok: "failed_with ?out = None"
    and rd: "example_ReadAll (Body (out_req ?out)) = Inr ''test''"
    by blast+
  from T ok obtain v where
    "Decode example_ext ?opts example_next example_rw ?rq =
       \<lparr>resp = fst (example_next ((out_resp ?out)\<lparr>RHeader :=
                   (RHeader (out_resp ?out))(''Accept-Encoding'' := [v])\<rparr>) (out_req ?out)),
        req = snd (example_next ((out_resp ?out)\<lparr>RHeader :=
                   (RHeader (out_resp ?out))(''Accept-Encoding'' := [v])\<rparr>) (out_req ?out)),
        trace = map event_of (done_steps ?out) @
          [AcceptEncodingSet v,
           NextServed ((out_resp ?out)\<lparr>RHeader :=
                   (RHeader (out_resp ?out))(''Accept-Encoding'' := [v])\<rparr>) (out_req ?out)]\<rparr>"
    by blast
  then have "trace (Decode example_ext ?opts example_next example_rw ?rq) =
       [Decoded Gzip None, Decoded (Custom 0) None, AcceptEncodingSet v,
        NextServed ((out_resp ?out)\<lparr>RHeader :=
                   (RHeader (out_resp ?out))(''Accept-Encoding'' := [v])\<rparr>) (out_req ?out)]"
    unfolding ds by (simp add: event_of_def)
  moreover have "Body (req (Decode example_ext ?opts example_next example_rw ?rq)) = ''test''"
    by (simp add: handler_defs example_defs)
  ultimately show ?thesis using rd by blast
qed

text \<open>
  Claim C2. When a decode step fails, the steps before it succeeded and it is the last
  step. The configured error handler is called once, on the response writer and the
  request as the steps up to the failed one left them and on the error of that step, and
  the handler ends with what the error handler returns. Nothing follows the call: no
  further token is tried, the next handler is not called and \<^verbatim>\<open>Accept-Encoding\<close> is
  not written. Without custom decoders the response writer is the one the handler
  received, and the request has the method and the headers it came with.
\<close>

theorem error_handler_once:
  assumes "Decoded k (Some e) \<in> set (trace (Decode ext opts next rw rq))"
    and "out = decode_tokens ext (make_config opts)
                 (rev (splitEncodingHeader (Header_Get (Header rq) ''Content-Encoding''))) rw rq"
  shows "\<exists>pre eh.
           failed_with out = Some e \<and> done_steps out = pre @ [(k, Some e)] \<and>
           (\<forall>s\<in>set pre. snd s = None) \<and>
           errHandler (make_config opts) = Some eh \<and>
           Decode ext opts next rw rq =
             \<lparr>resp = fst (eh (out_resp out) (out_req out) e),
              req = snd (eh (out_resp out) (out_req out) e),
              trace = map event_of pre @
                [Decoded k (Some e), ErrHandled (out_resp out) (out_req out) e]\<rparr> \<and>
           length (filter is_ErrHandled (trace (Decode ext opts next rw rq))) = 1 \<and>
           filter is_NextServed (trace (Decode ext opts next rw rq)) = [] \<and>
           filter is_AcceptEncodingSet (trace (Decode ext opts next rw rq)) = [] \<and>
           (decoders (make_config opts) = [] \<longrightarrow>
              out_resp out = rw \<and> Method (out_req out) = Method rq \<and>
              Header (out_req out) = Header rq)"
proof -
  have m: "Method rq \<noteq> MethodGet" "Method rq \<noteq> MethodHead"
    using Decode_not_passed [OF assms(1)] by simp_all
  obtain eh where eh: "errHandler (make_config opts) = Some eh"
    using make_config_errHandler by blast
  note D = Decode_refines [OF m eh assms(2), of "next"]
  have keep: "decoders (make_config opts) = [] \<longrightarrow>
              out_resp out = rw \<and> Method (out_req out) = Method rq \<and>
              Header (out_req out) = Header rq"
    unfolding assms(2) using decode_tokens_no_decoders by blast
  show ?thesis
  proof (cases ext opts "next" rw rq rule: Decode_trace_cases)
    case passed
    with assms(1) show ?thesis by simp
  next
    case (decoded evs v rw' rq')
    with assms(1) show ?thesis by (auto simp: ok_steps_def)
  next
    case (failed evs k0 e0 rw' rq' eh0)
    from assms(1) failed(1,2) have same: "k0 = k" "e0 = e"
      by (auto simp: ok_steps_def)
    show ?thesis
    proof (cases "failed_with out")
      case None
      with D failed(1) show ?thesis by (simp add: Let_def)
    next
      case (Some err)
      with D have tr: "trace (Decode ext opts next rw rq) =
          map event_of (done_steps out) @ [ErrHandled (out_resp out) (out_req out) err]"
        and st: "Decode ext opts next rw rq =
             \<lparr>resp = fst (eh (out_resp out) (out_req out) err),
              req = snd (eh (out_resp out) (out_req out) err),
              trace = map event_of (done_steps out) @
                [ErrHandled (out_resp out) (out_req out) err]\<rparr>"
        by simp_all
      from tr failed(1) same
      have "map event_of (done_steps out) @ [ErrHandled (out_resp out) (out_req out) err] =
              (evs @ [Decoded k (Some e)]) @ [ErrHandled rw' rq' e]"
        by auto
      then have eq: "err = e" "map event_of (done_steps out) = evs @ [Decoded k (Some e)]"
        unfolding append1_eq_conv by simp_all
      from map_event_of_snoc [OF eq(2)] obtain pre where
        pre: "done_steps out = pre @ [(k, Some e)]" "map event_of pre = evs"
        by blast
      have none: "\<forall>s\<in>set pre. snd s = None"
        using failed(2) pre(2) ok_steps_map_event_of by blast
      have only: "\<forall>ev\<in>set (map event_of pre :: 'a event list). \<exists>k'. ev = Decoded k' None"
        using failed(2) pre(2) by (auto simp: ok_steps_def)
      then have f: "filter is_ErrHandled (map event_of pre :: 'a event list) = []"
        "filter is_NextServed (map event_of pre :: 'a event list) = []"
        "filter is_AcceptEncodingSet (map event_of pre :: 'a event list) = []"
        by (auto simp: filter_empty_conv)
      have st': "Decode ext opts next rw rq =
             \<lparr>resp = fst (eh (out_resp out) (out_req out) e),
              req = snd (eh (out_resp out) (out_req out) e),
              trace = map event_of pre @
                [Decoded k (Some e), ErrHandled (out_resp out) (out_req out) e]\<rparr>"
        using st eq(1) pre(1) by (simp add: event_of_def)
      have cnt: "length (filter is_ErrHandled (trace (Decode ext opts next rw rq))) = 1"
        "filter is_NextServed (trace (Decode ext opts next rw rq)) = []"
        "filter is_AcceptEncodingSet (trace (Decode ext opts next rw rq)) = []"
        unfolding st' using f by simp_all
      from Some eq(1) pre(1) none eh st' cnt keep show ?thesis by blast
    qed
  qed
qed

text \<open>\<^verbatim>\<open>Content-Encoding: gzip\<close> on a body that is not gzip, with a response writer that already carries a header.\<close>

theorem error_handler_once_witness:
  "Decoded Gzip (Some (Error ''gzip: invalid header'')) \<in>
     set (trace (Decode example_ext [] example_next
                   (example_rw\<lparr>RHeader := (RHeader example_rw)(''X-Request-Id'' := [''42''])\<rparr>)
                   (example_request ''POST'' ''gzip'' ''test''))) \<and>
   trace (Decode example_ext [] example_next
            (example_rw\<lparr>RHeader := (RHeader example_rw)(''X-Request-Id'' := [''42''])\<rparr>)
            (example_request ''POST'' ''gzip'' ''test'')) =
     [Decoded Gzip (Some (Error ''gzip: invalid header'')),
      ErrHandled (example_rw\<lparr>RHeader := (RHeader example_rw)(''X-Request-Id'' := [''42''])\<rparr>)
        (example_request ''POST'' ''gzip'' ''test'') (Error ''gzip: invalid header'')] \<and>
   RHeader (resp (Decode example_ext [] example_next
            (example_rw\<lparr>RHeader := (RHeader example_rw)(''X-Request-Id'' := [''42''])\<rparr>)
            (example_request ''POST'' ''gzip'' ''test''))) ''X-Request-Id'' = [''42''] \<and>
   Status (resp (Decode example_ext [] example_next
            (example_rw\<lparr>RHeader := (RHeader example_rw)(''X-Request-Id'' := [''42''])\<rparr>)
            (example_request ''POST'' ''gzip'' ''test''))) = Some 400 \<and>
   Method (req (Decode example_ext [] example_next
            (example_rw\<lparr>RHeader := (RHeader example_rw)(''X-Request-Id'' := [''42''])\<rparr>)
            (example_request ''POST'' ''gzip'' ''test''))) = ''POST''"
proof -
  let ?rq = "example_request ''POST'' ''gzip'' ''test''"
  let ?rw = "example_rw\<lparr>RHeader := (RHeader example_rw)(''X-Request-Id'' := [''42''])\<rparr>"
  let ?E = "Error ''gzip: invalid header''"
  let ?D = "Decode example_ext [] example_next ?rw ?rq"
  let ?out = "decode_tokens example_ext (make_config [])
                (rev (splitEncodingHeader (Header_Get (Header ?rq) ''Content-Encoding''))) ?rw ?rq"
  have h: "Decoded Gzip (Some ?E) \<in> set (trace ?D)"
    by (simp add: handler_defs example_defs)
  have o: "done_steps ?out = [(Gzip, Some ?E)]" "out_resp ?out = ?rw" "out_req ?out = ?rq"
    by (simp_all add: outcome_defs example_defs)
  have eh0: "errHandler (make_config [] :: (string, nat) config) = Some DefaultErrorHandler"
    by (simp add: make_config_def defaults_def new_config_def)
  from error_handler_once [OF h refl] obtain pre eh where
    p: "done_steps ?out = pre @ [(Gzip, Some ?E)]"
    and e: "errHandler (make_config [] :: (string, nat) config) = Some eh"
    and d: "?D = \<lparr>resp = fst (eh (out_resp ?out) (out_req ?out) ?E),
              req = snd (eh (out_resp ?out) (out_req ?out) ?E),
              trace = map event_of pre @
                [Decoded Gzip (Some ?E), ErrHandled (out_resp ?out) (out_req ?out) ?E]\<rparr>"
    by blast
  from p o(1) have pre: "pre = []" by simp
  from e eh0 have eh: "eh = DefaultErrorHandler" by simp
  have D: "?D = \<lparr>resp = fst (DefaultErrorHandler ?rw ?rq ?E),
              req = snd (DefaultErrorHandler ?rw ?rq ?E),
              trace = [Decoded Gzip (Some ?E), ErrHandled ?rw ?rq ?E]\<rparr>"
    using d unfolding pre eh o(2,3) by simp
  have direct: "RHeader (resp ?D) ''X-Request-Id'' = [''42'']"
    by (simp add: handler_defs example_defs http_Error_def Fprintln_def WriteHeader_def
        StatusBadRequest_def)
  show ?thesis
    using direct unfolding D
    by (simp add: DefaultErrorHandler_def http_Error_def Fprintln_def WriteHeader_def
        Header_Set_def StatusBadRequest_def Let_def example_request_def example_rw_def)
qed

text \<open>
  Claim C3, amended. On the success path of a request that is neither GET nor HEAD, the
  middleware writes \<^verbatim>\<open>Accept-Encoding\<close> once and calls the next handler. It reads
  the prior header as \<^verbatim>\<open>Header().Get\<close> gives it: the first value, or the empty string
  when there is none. When that string is empty, the value written is \<open>br, gzip, zstd\<close>
  followed by the tokens of the custom decoders in registration order, joined with a
  comma and a space, unsorted. Otherwise it is the sorted list of the set union of the
  tokens of that first value (the value without its spaces, cut at the commas) and that
  list, joined in the same way; further values of the prior header are not merged.
\<close>

theorem accept_encoding_negotiation:
  assumes "Method rq \<noteq> MethodGet" and "Method rq \<noteq> MethodHead"
    and "out = decode_tokens ext (make_config opts)
                 (rev (splitEncodingHeader (Header_Get (Header rq) ''Content-Encoding''))) rw rq"
    and "failed_with out = None"
    and "current = (case RHeader (out_resp out) ''Accept-Encoding'' of
                      [] \<Rightarrow> [] | first # others \<Rightarrow> first)"
    and "Join toks '','' = filter (\<lambda>c. c \<noteq> CHR '' '') current"
    and "toks \<noteq> []" and "\<forall>t\<in>set toks. CHR '','' \<notin> set t"
    and "encodings = [''br'', ''gzip'', ''zstd''] @ map Encoding (decoders (make_config opts))"
    and "v = (if current = [] then Join encodings '', ''
              else Join (sorted_list_of_set (set toks \<union> set encodings)) '', '')"
    and "rwf = (out_resp out)\<lparr>RHeader := (RHeader (out_resp out))(''Accept-Encoding'' := [v])\<rparr>"
  shows "Decode ext opts next rw rq =
           \<lparr>resp = fst (next rwf (out_req out)), req = snd (next rwf (out_req out)),
            trace = map event_of (done_steps out) @
                      [AcceptEncodingSet v, NextServed rwf (out_req out)]\<rparr>"
proof -
  obtain eh where eh: "errHandler (make_config opts) = Some eh"
    using make_config_errHandler by blast
  have cur: "Header_Get (RHeader (out_resp out)) ''Accept-Encoding'' = current"
    unfolding assms(5) by (simp add: Header_Get_def)
  have "Split_comma (noSpace_Replace current) = Split_comma (Join toks '','')"
    using assms(6) by (simp add: noSpace_Replace_def)
  also have "\<dots> = toks" by (rule Split_comma_Join [OF assms(7,8)])
  finally have tk: "current \<noteq> [] \<Longrightarrow> splitEncodingHeader current = toks"
    by (simp add: splitEncodingHeader_def)
  have v: "v = (if current = [] then joinWithCommaSpace (supported_encodings (make_config opts))
                else mergeAcceptEncoding (map_iteration ext) current
                       (supported_encodings (make_config opts)))"
    unfolding assms(10) assms(9)
    using tk by (simp add: mergeAcceptEncoding_eq supported_encodings_eq joinWithCommaSpace_def)
  show ?thesis
    using Decode_refines [OF assms(1,2) eh assms(3), of "next"] assms(4)
    unfolding cur assms(11) v by (simp add: Let_def)
qed

text \<open>With a custom decoder registered: an earlier middleware has set \<^verbatim>\<open>Accept-Encoding: gzip, deflate\<close>, and no prior header.\<close>

theorem accept_encoding_negotiation_witness:
  "AcceptEncodingSet ''br, custom, deflate, gzip, zstd'' \<in>
     set (trace (Decode example_ext [WithDecoder [suffix_decoder ''custom'' ''-custom'']] example_next
                   (example_rw\<lparr>RHeader := (RHeader example_rw)(''Accept-Encoding'' := [''gzip, deflate''])\<rparr>)
                   (example_request ''POST'' ''gzip'' ''Gtest''))) \<and>
   AcceptEncodingSet ''br, gzip, zstd, custom'' \<in>
     set (trace (Decode example_ext [WithDecoder [suffix_decoder ''custom'' ''-custom'']] example_next
                   example_rw (example_request ''POST'' ''gzip'' ''Gtest'')))"
proof -
  let ?opts = "[WithDecoder [suffix_decoder ''custom'' ''-custom'']] :: (string, nat) Option list"
  let ?rq = "example_request ''POST'' ''gzip'' ''Gtest''"
  let ?rw = "example_rw\<lparr>RHeader := (RHeader example_rw)(''Accept-Encoding'' := [''gzip, deflate''])\<rparr>"
  let ?out1 = "decode_tokens example_ext (make_config ?opts)
                (rev (splitEncodingHeader (Header_Get (Header ?rq) ''Content-Encoding''))) ?rw ?rq"
  let ?out2 = "decode_tokens example_ext (make_config ?opts)
                (rev (splitEncodingHeader (Header_Get (Header ?rq) ''Content-Encoding'')))
                example_rw ?rq"
  have m: "Method ?rq \<noteq> MethodGet" "Method ?rq \<noteq> MethodHead"
    by (simp_all add: example_defs MethodGet_def MethodHead_def)
  have f1: "failed_with ?out1 = None" and f2: "failed_with ?out2 = None"
    by (simp_all add: outcome_defs example_defs)
  have c1: "''gzip, deflate'' =
      (case RHeader (out_resp ?out1) ''Accept-Encoding'' of [] \<Rightarrow> [] | first # others \<Rightarrow> first)"
    by (simp add: outcome_defs example_defs)
  have c2: "[] =
      (case RHeader (out_resp ?out2) ''Accept-Encoding'' of [] \<Rightarrow> [] | first # others \<Rightarrow> first)"
    by (simp add: outcome_defs example_defs)
  have j1: "Join [''gzip'', ''deflate''] '','' = filter (\<lambda>c. c \<noteq> CHR '' '') ''gzip, deflate''"
    by simp
  have j2: "Join [[]] '','' = filter (\<lambda>c. c \<noteq> CHR '' '') []" by simp
  have n1: "[''gzip'', ''deflate''] \<noteq> []" "\<forall>t\<in>set [''gzip'', ''deflate'']. CHR '','' \<notin> set t"
    by simp_all
  have n2: "[[]] \<noteq> ([] :: string list)" "\<forall>t\<in>set [[]]. CHR '','' \<notin> set t" by simp_all
  have e: "[''br'', ''gzip'', ''zstd'', ''custom''] =
           [''br'', ''gzip'', ''zstd''] @ map Encoding (decoders (make_config ?opts))"
    by (simp add: make_config_def defaults_def new_config_def suffix_decoder_def)
  have v1: "''br, custom, deflate, gzip, zstd'' =
     (if ''gzip, deflate'' = [] then Join [''br'', ''gzip'', ''zstd'', ''custom''] '', ''
      else Join (sorted_list_of_set (set [''gzip'', ''deflate''] \<union>
                   set [''br'', ''gzip'', ''zstd'', ''custom''])) '', '')"
    by code_simp
  have v2: "''br, gzip, zstd, custom'' =
     (if [] = [] then Join [''br'', ''gzip'', ''zstd'', ''custom''] '', ''
      else Join (sorted_list_of_set (set [[]] \<union>
                   set [''br'', ''gzip'', ''zstd'', ''custom''])) '', '')"
    by simp
  show ?thesis
    using accept_encoding_negotiation [OF m refl f1 c1 j1 n1 e v1 refl, of example_next]
      accept_encoding_negotiation [OF m refl f2 c2 j2 n2 e v2 refl, of example_next]
    by simp
qed

text \<open>
  A prior header with an empty value exists, and the value written is the unsorted list;
  of a prior header with the two values \<open>gzip\<close> and \<open>deflate\<close> the second is lost.
  Both differ from the value of the claim as it was stated.
\<close>

theorem prior_header_edge_cases:
  "filter is_AcceptEncodingSet
     (trace (Decode example_ext [WithDecoder [suffix_decoder ''a'' ''-a'']] example_next
               (example_rw\<lparr>RHeader := (RHeader example_rw)(''Accept-Encoding'' := [[]])\<rparr>)
               (example_request ''POST'' [] ''test''))) =
     [AcceptEncodingSet ''br, gzip, zstd, a''] \<and>
   claimed_AcceptEncoding [[]] [''br'', ''gzip'', ''zstd'', ''a''] = ''a, br, gzip, zstd'' \<and>
   filter is_AcceptEncodingSet
     (trace (Decode example_ext [] example_next
               (example_rw\<lparr>RHeader := (RHeader example_rw)(''Accept-Encoding'' := [''gzip'', ''deflate''])\<rparr>)
               (example_request ''POST'' [] ''test''))) =
     [AcceptEncodingSet ''br, gzip, zstd''] \<and>
   claimed_AcceptEncoding [''gzip'', ''deflate''] [''br'', ''gzip'', ''zstd''] =
     ''br, deflate, gzip, zstd''"
proof -
  have a: "claimed_AcceptEncoding [[]] [''br'', ''gzip'', ''zstd'', ''a''] = ''a, br, gzip, zstd''"
    by code_simp
  have b: "claimed_AcceptEncoding [''gzip'', ''deflate''] [''br'', ''gzip'', ''zstd''] =
     ''br, deflate, gzip, zstd''"
    by code_simp
  have c: "mergeAcceptEncoding (map_iteration example_ext) ''gzip'' [''br'', ''gzip'', ''zstd''] =
     ''br, gzip, zstd''"
    by code_simp
  have d: "filter is_AcceptEncodingSet
     (trace (Decode example_ext [WithDecoder [suffix_decoder ''a'' ''-a'']] example_next
               (example_rw\<lparr>RHeader := (RHeader example_rw)(''Accept-Encoding'' := [[]])\<rparr>)
               (example_request ''POST'' [] ''test''))) =
     [AcceptEncodingSet ''br, gzip, zstd, a'']"
    by (simp add: handler_defs example_defs)
  have e: "filter is_AcceptEncodingSet
     (trace (Decode example_ext [] example_next
               (example_rw\<lparr>RHeader := (RHeader example_rw)(''Accept-Encoding'' := [''gzip'', ''deflate''])\<rparr>)
               (example_request ''POST'' [] ''test''))) =
     [AcceptEncodingSet ''br, gzip, zstd'']"
    using c by (simp add: handler_defs example_rw_def example_next_def example_request_def)
  from a b d e show ?thesis by blast
qed

text \<open>
  Claim C4, amended. For a token that no case of the \<^verbatim>\<open>switch\<close> names, the custom
  decoders are scanned in registration order and every decoder whose \<open>Encoding\<close> equals
  the token is invoked, in that order, each on the response writer and the request as
  the one before left them, until one of them returns an error; the step then returns
  through the error handler. When none fails, all of them have been invoked. With two
  decoders registered for the token, the first is invoked, and the second after it
  unless the first returned an error.
\<close>

theorem custom_decoders_all_matching:
  assumes "\<not> builtin_token v" and "errHandler cfg = Some eh"
    and "out = apply_Handlers (matching_decoders v (decoders cfg)) (resp st) (req st)"
  shows "switch_encoding ext cfg v st =
           (case failed_with out of
              None \<Rightarrow>
                Continue \<lparr>resp = out_resp out, req = out_req out,
                          trace = trace st @ map event_of (done_steps out)\<rparr>
            | Some err \<Rightarrow>
                Return \<lparr>resp = fst (eh (out_resp out) (out_req out) err),
                        req = snd (eh (out_resp out) (out_req out) err),
                        trace = trace st @ map event_of (done_steps out) @
                                  [ErrHandled (out_resp out) (out_req out) err]\<rparr>) \<and>
         (failed_with out = None \<longrightarrow>
            map fst (done_steps out) =
              map (\<lambda>(i, d). Custom i) (matching_decoders v (decoders cfg))) \<and>
         (decoders cfg = [d1, d2] \<and> Encoding d1 = v \<and> Encoding d2 = v \<longrightarrow>
            out = then_outcome (invoke_Handler 0 d1 (resp st) (req st)) (invoke_Handler 1 d2))"
proof (intro conjI impI)
  have "switch_encoding ext cfg v st = flow_of cfg st out"
    unfolding assms(3)
    using decoder_for_custom [OF assms(1), of ext cfg "resp st" "req st"]
    by (simp add: switch_encoding_refines)
  then show "switch_encoding ext cfg v st =
           (case failed_with out of
              None \<Rightarrow>
                Continue \<lparr>resp = out_resp out, req = out_req out,
                          trace = trace st @ map event_of (done_steps out)\<rparr>
            | Some err \<Rightarrow>
                Return \<lparr>resp = fst (eh (out_resp out) (out_req out) err),
                        req = snd (eh (out_resp out) (out_req out) err),
                        trace = trace st @ map event_of (done_steps out) @
                                  [ErrHandled (out_resp out) (out_req out) err]\<rparr>)"
    using assms(2)
    by (simp add: flow_of_def call_errHandler_def log_event_def Let_def
        split: option.splits prod.splits)
next
  assume "failed_with out = None"
  then show "map fst (done_steps out) =
              map (\<lambda>(i, d). Custom i) (matching_decoders v (decoders cfg))"
    unfolding assms(3) by (rule apply_Handlers_all)
next
  assume two: "decoders cfg = [d1, d2] \<and> Encoding d1 = v \<and> Encoding d2 = v"
  then have "matching_decoders v (decoders cfg) = [(0, d1), (1, d2)]"
    by (simp add: matching_decoders_def upt_rec [of 0] upt_rec [of 1] upt_rec [of 2])
  moreover have "apply_Handlers [(1, d2)] = invoke_Handler 1 d2"
    by (intro ext) (simp add: then_outcome_unit cong: then_outcome_def)
  ultimately show "out = then_outcome (invoke_Handler 0 d1 (resp st) (req st)) (invoke_Handler 1 d2)"
    unfolding assms(3) by simp
qed

text \<open>Two decoders registered for the token \<open>custom\<close>: both succeed, and the first fails.\<close>

theorem custom_decoders_all_matching_witness:
  "\<not> builtin_token ''custom'' \<and>
   (\<exists>st'. switch_encoding example_ext
            (make_config [WithDecoder [suffix_decoder ''custom'' ''-a'', suffix_decoder ''custom'' ''-b'']])
            ''custom''
            \<lparr>resp = example_rw, req = example_request ''POST'' ''custom'' ''test'', trace = []\<rparr> =
          Continue st' \<and>
          trace st' = [Decoded (Custom 0) None, Decoded (Custom 1) None] \<and>
          Body (req st') = ''test-a-b'') \<and>
   (\<exists>st'. switch_encoding example_ext
            (make_config [WithDecoder [prefix_decoder ''custom'' (CHR ''C''), suffix_decoder ''custom'' ''-b'']])
            ''custom''
            \<lparr>resp = example_rw, req = example_request ''POST'' ''custom'' ''test'', trace = []\<rparr> =
          Return st' \<and>
          trace st' = [Decoded (Custom 0) (Some (Error ''custom: bad prefix'')),
                       ErrHandled example_rw (example_request ''POST'' ''custom'' ''test'')
                         (Error ''custom: bad prefix'')])"
proof -
  let ?cfg1 = "make_config [WithDecoder [suffix_decoder ''custom'' ''-a'', suffix_decoder ''custom'' ''-b'']]
                :: (string, nat) config"
  let ?cfg2 = "make_config [WithDecoder [prefix_decoder ''custom'' (CHR ''C''), suffix_decoder ''custom'' ''-b'']]
                :: (string, nat) config"
  let ?rq = "example_request ''POST'' ''custom'' ''test''"
  let ?st = "\<lparr>resp = example_rw, req = ?rq, trace = []\<rparr>"
  let ?out1 = "apply_Handlers (matching_decoders ''custom'' (decoders ?cfg1)) (resp ?st) (req ?st)"
  let ?out2 = "apply_Handlers (matching_decoders ''custom'' (decoders ?cfg2)) (resp ?st) (req ?st)"
  have h: "\<not> builtin_token ''custom''" by (simp add: builtin_token_def)
  have e1: "errHandler ?cfg1 = Some DefaultErrorHandler"
    and e2: "errHandler ?cfg2 = Some DefaultErrorHandler"
    by (simp_all add: make_config_def defaults_def new_config_def)
  have o1: "failed_with ?out1 = None" "done_steps ?out1 = [(Custom 0, None), (Custom 1, None)]"
    "Body (out_req ?out1) = ''test-a-b''"
    by (simp_all add: outcome_defs example_defs upt_rec [of 0] upt_rec [of 1] upt_rec [of 2])
  have o2: "failed_with ?out2 = Some (Error ''custom: bad prefix'')"
    "done_steps ?out2 = [(Custom 0, Some (Error ''custom: bad prefix''))]"
    "out_resp ?out2 = example_rw" "out_req ?out2 = ?rq"
    by (simp_all add: outcome_defs example_defs upt_rec [of 0] upt_rec [of 1] upt_rec [of 2])
  have s1: "switch_encoding example_ext ?cfg1 ''custom'' ?st =
              Continue \<lparr>resp = out_resp ?out1, req = out_req ?out1,
                        trace = trace ?st @ map event_of (done_steps ?out1)\<rparr>"
    using custom_decoders_all_matching [OF h e1 refl, where ext = example_ext] o1(1)
    by simp
  have s2: "switch_encoding example_ext ?cfg2 ''custom'' ?st =
              Return \<lparr>resp = fst (DefaultErrorHandler (out_resp ?out2) (out_req ?out2)
                                    (Error ''custom: bad prefix'')),
                      req = snd (DefaultErrorHandler (out_resp ?out2) (out_req ?out2)
                                    (Error ''custom: bad prefix'')),
                      trace = trace ?st @ map event_of (done_steps ?out2) @
                        [ErrHandled (out_resp ?out2) (out_req ?out2) (Error ''custom: bad prefix'')]\<rparr>"
    using custom_decoders_all_matching [OF h e2 refl, where ext = example_ext] o2(1)
    by simp
  have direct: "switch_encoding example_ext ?cfg1 ''custom'' ?st =
      Continue \<lparr>resp = example_rw, req = ?rq\<lparr>Body := ''test-a-b''\<rparr>,
                trace = [Decoded (Custom 0) None, Decoded (Custom 1) None]\<rparr>"
    by (simp add: handler_defs example_defs)
  show ?thesis
    using direct unfolding s1 s2 using h o1 o2 by (simp add: event_of_def)
qed

text \<open>
  With two custom decoders registered for the same token, the second one is invoked too:
  here each appends its suffix to the body.
\<close>

theorem second_matching_decoder_invoked:
  "Decoded (Custom 1) None \<in>
     set (trace (Decode example_ext
                   [WithDecoder [suffix_decoder ''custom'' ''-a'', suffix_decoder ''custom'' ''-b'']]
                   example_next example_rw (example_request ''POST'' ''custom'' ''test''))) \<and>
   Body (req (Decode example_ext
                   [WithDecoder [suffix_decoder ''custom'' ''-a'', suffix_decoder ''custom'' ''-b'']]
                   example_next example_rw (example_request ''POST'' ''custom'' ''test''))) = ''test-a-b''"
  by (simp add: handler_defs example_defs)

text \<open>
  Claim C5, amended. Tokenizing drops every space character (byte 0x20) of the raw string
  and no other character, splits the result at the commas and returns the tokens in
  order: joined with commas the tokens give back the raw string without its spaces,
  there is one token more than there are commas, and no token contains a comma or a
  space. The empty string gives no token. There is no failure: the function is total.
\<close>

theorem tokenizer_strips_spaces:
  "(raw = [] \<longrightarrow> splitEncodingHeader raw = []) \<and>
   (raw \<noteq> [] \<longrightarrow>
      Join (splitEncodingHeader raw) '','' = filter (\<lambda>c. c \<noteq> CHR '' '') raw \<and>
      length (splitEncodingHeader raw) = Suc (count_list raw (CHR '',''))) \<and>
   (\<forall>t\<in>set (splitEncodingHeader raw). CHR '','' \<notin> set t \<and> CHR '' '' \<notin> set t \<and> set t \<subseteq> set raw)"
proof (cases "raw = []")
  case True
  then show ?thesis by (simp add: splitEncodingHeader_def)
next
  case False
  then have eq: "splitEncodingHeader raw = Split_comma (noSpace_Replace raw)"
    by (simp add: splitEncodingHeader_def)
  have j: "Join (splitEncodingHeader raw) '','' = filter (\<lambda>c. c \<noteq> CHR '' '') raw"
    unfolding eq Join_Split_comma by (simp add: noSpace_Replace_def)
  have l: "length (splitEncodingHeader raw) = Suc (count_list raw (CHR '',''))"
    unfolding eq length_Split_comma count_comma_noSpace_Replace by simp
  have "CHR '','' \<notin> set t \<and> CHR '' '' \<notin> set t \<and> set t \<subseteq> set raw"
    if t: "t \<in> set (Split_comma (noSpace_Replace raw))" for t
  proof -
    have "set t \<subseteq> set (noSpace_Replace raw)" by (rule Split_comma_subset [OF t])
    then have "CHR '' '' \<notin> set t" "set t \<subseteq> set raw" by (auto simp: noSpace_Replace_def)
    with Split_comma_no_comma [OF t] show ?thesis by simp
  qed
  then have "\<forall>t\<in>set (splitEncodingHeader raw). CHR '','' \<notin> set t \<and> CHR '' '' \<notin> set t \<and> set t \<subseteq> set raw"
    unfolding eq by blast
  with False j l show ?thesis by simp
qed

text \<open>The empty string and \<open>gzip, zstd\<close>.\<close>

theorem tokenizer_strips_spaces_witness:
  "splitEncodingHeader [] = [] \<and>
   Join (splitEncodingHeader ''gzip, zstd'') '','' = ''gzip,zstd'' \<and>
   length (splitEncodingHeader ''gzip, zstd'') = 2 \<and>
   splitEncodingHeader ''gzip, zstd'' = [''gzip'', ''zstd'']"
  using tokenizer_strips_spaces [of "''gzip, zstd''"] tokenizer_strips_spaces [of "[]"]
  by (simp add: splitEncodingHeader_def noSpace_Replace_def)

text \<open>
  A tab is whitespace, and it stays in the token: the result differs from that of a
  tokenizer that strips all whitespace.
\<close>

theorem tokenizer_keeps_tab:
  "splitEncodingHeader (''gzip,'' @ [CHR 0x09] @ ''br'') = [''gzip'', CHR 0x09 # ''br''] \<and>
   splitEncodingHeader (''gzip,'' @ [CHR 0x09] @ ''br'') \<noteq>
     split_stripping_whitespace (''gzip,'' @ [CHR 0x09] @ ''br'')"
  by (simp add: splitEncodingHeader_def noSpace_Replace_def split_stripping_whitespace_def isSpace_def)

text \<open>
  Claim C6. For a GET or HEAD request the handler only calls the next handler, on the
  response writer and the request as it got them, whatever \<^verbatim>\<open>Content-Encoding\<close> the
  request carries: the result does not depend on that header, the body is not replaced
  and \<^verbatim>\<open>Accept-Encoding\<close> is not written.
\<close>

theorem get_head_pass_through:
  assumes "Method rq = MethodGet \<or> Method rq = MethodHead"
  shows "Decode ext opts next rw rq =
           \<lparr>resp = fst (next rw rq), req = snd (next rw rq), trace = [NextServed rw rq]\<rparr>"
  using assms by (simp add: Decode_get_head call_next_def log_event_def split: prod.splits)

text \<open>A GET request that names gzip and whose body is not gzip.\<close>

theorem get_head_pass_through_witness:
  "(Method (example_request ''GET'' ''gzip'' ''test'') = MethodGet \<or>
    Method (example_request ''GET'' ''gzip'' ''test'') = MethodHead) \<and>
   trace (Decode example_ext [] example_next example_rw (example_request ''GET'' ''gzip'' ''test'')) =
     [NextServed example_rw (example_request ''GET'' ''gzip'' ''test'')]"
proof -
  have h: "Method (example_request ''GET'' ''gzip'' ''test'') = MethodGet \<or>
    Method (example_request ''GET'' ''gzip'' ''test'') = MethodHead"
    by (simp add: example_request_def MethodGet_def)
  show ?thesis using get_head_pass_through [OF h, of example_ext "[]" example_next example_rw] h
    by simp
qed

text \<open>
  Claim C7. The empty token and \<open>identity\<close> leave the state as it is and the loop goes
  on; so does a token that no case of the \<^verbatim>\<open>switch\<close> names and no custom decoder is
  registered for. A request that is neither GET nor HEAD and whose tokens are all of these
  kinds reaches the next handler with the request unchanged, after the write of
  \<^verbatim>\<open>Accept-Encoding\<close>, and the error handler is not called.
\<close>

theorem identity_and_unknown_tokens:
  "((v = [] \<or> v = ''identity'') \<longrightarrow> switch_encoding ext cfg v st = Continue st) \<and>
   (\<not> builtin_token v \<and> v \<notin> Encoding ` set (decoders cfg) \<longrightarrow>
      switch_encoding ext cfg v st = Continue st) \<and>
   (Method rq \<noteq> MethodGet \<and> Method rq \<noteq> MethodHead \<and>
    (\<forall>t\<in>set (splitEncodingHeader (Header_Get (Header rq) ''Content-Encoding'')).
        t = [] \<or> t = ''identity'' \<or>
        (\<not> builtin_token t \<and> t \<notin> Encoding ` set (decoders (make_config opts)))) \<longrightarrow>
      (\<exists>value. trace (Decode ext opts next rw rq) =
         [AcceptEncodingSet value,
          NextServed (rw\<lparr>RHeader := (RHeader rw)(''Accept-Encoding'' := [value])\<rparr>) rq]))"
proof (intro conjI impI)
  assume "v = [] \<or> v = ''identity''"
  then show "switch_encoding ext cfg v st = Continue st" by (rule switch_encoding_identity)
next
  assume "\<not> builtin_token v \<and> v \<notin> Encoding ` set (decoders cfg)"
  then show "switch_encoding ext cfg v st = Continue st" by (simp add: switch_encoding_unknown)
next
  let ?vals = "splitEncodingHeader (Header_Get (Header rq) ''Content-Encoding'')"
  let ?st0 = "\<lparr>resp = rw, req = rq, trace = []\<rparr> :: 'a state"
  assume a: "Method rq \<noteq> MethodGet \<and> Method rq \<noteq> MethodHead \<and>
    (\<forall>t\<in>set ?vals. t = [] \<or> t = ''identity'' \<or>
        (\<not> builtin_token t \<and> t \<notin> Encoding ` set (decoders (make_config opts))))"
  then have "run_tokens ext (make_config opts) (rev ?vals) ?st0 = Continue ?st0"
    by (intro run_tokens_without_effect) simp
  then have loop: "values_loop ext (make_config opts) ?vals (int (length ?vals) - 1) ?st0 = Continue ?st0"
    by (simp add: values_loop_rev)
  from a have m: "Method rq \<noteq> MethodGet" "Method rq \<noteq> MethodHead" by simp_all
  show "\<exists>value. trace (Decode ext opts next rw rq) =
         [AcceptEncodingSet value,
          NextServed (rw\<lparr>RHeader := (RHeader rw)(''Accept-Encoding'' := [value])\<rparr>) rq]"
    using Decode_Continue [OF m loop refl] by auto
qed

text \<open>The tokens \<open>identity\<close> and \<open>deflate\<close>, with no custom decoder registered.\<close>

theorem identity_and_unknown_tokens_witness:
  "switch_encoding example_ext (make_config []) ''identity''
     \<lparr>resp = example_rw, req = example_request ''POST'' ''identity'' ''test'', trace = []\<rparr> =
   Continue \<lparr>resp = example_rw, req = example_request ''POST'' ''identity'' ''test'', trace = []\<rparr> \<and>
   switch_encoding example_ext (make_config []) ''deflate''
     \<lparr>resp = example_rw, req = example_request ''POST'' ''deflate'' ''test'', trace = []\<rparr> =
   Continue \<lparr>resp = example_rw, req = example_request ''POST'' ''deflate'' ''test'', trace = []\<rparr> \<and>
   (\<exists>value. trace (Decode example_ext [] example_next example_rw
                     (example_request ''POST'' ''deflate, identity'' ''test'')) =
      [AcceptEncodingSet value,
       NextServed (example_rw\<lparr>RHeader := (RHeader example_rw)(''Accept-Encoding'' := [value])\<rparr>)
         (example_request ''POST'' ''deflate, identity'' ''test'')])"
proof -
  let ?cfg = "make_config [] :: (string, nat) config"
  let ?rq = "example_request ''POST'' ''deflate, identity'' ''test''"
  have a: "''identity'' = [] \<or> ''identity'' = ''identity''" by simp
  have b: "\<not> builtin_token ''deflate'' \<and> ''deflate'' \<notin> Encoding ` set (decoders ?cfg)"
    by (simp add: builtin_token_def make_config_def defaults_def new_config_def)
  have c: "Method ?rq \<noteq> MethodGet \<and> Method ?rq \<noteq> MethodHead \<and>
    (\<forall>t\<in>set (splitEncodingHeader (Header_Get (Header ?rq) ''Content-Encoding'')).
        t = [] \<or> t = ''identity'' \<or> (\<not> builtin_token t \<and> t \<notin> Encoding ` set (decoders ?cfg)))"
    by (simp add: builtin_token_def make_config_def defaults_def new_config_def example_request_def
        MethodGet_def MethodHead_def Header_Get_def splitEncodingHeader_def noSpace_Replace_def)
  show ?thesis
    using identity_and_unknown_tokens [of "''identity''" example_ext ?cfg
        "\<lparr>resp = example_rw, req = example_request ''POST'' ''identity'' ''test'', trace = []\<rparr>"
        ?rq "[]" example_next example_rw]
      identity_and_unknown_tokens [of "''deflate''" example_ext ?cfg
        "\<lparr>resp = example_rw, req = example_request ''POST'' ''deflate'' ''test'', trace = []\<rparr>"
        ?rq "[]" example_next example_rw]
      a b c
    by blast
qed

text \<open>
  Claim C8. A custom decoder registered under \<open>br\<close>, \<open>gzip\<close>, \<open>x-gzip\<close>,
  \<open>zstd\<close>, \<open>identity\<close> or the empty token is never invoked, on any request: no step
  of it, successful or failed, is in the trace.
\<close>

theorem builtin_shadows_custom:
  assumes "i < length (decoders (make_config opts))"
    and "builtin_token (Encoding (decoders (make_config opts) ! i))"
  shows "Decoded (Custom i) result \<notin> set (trace (Decode ext opts next rw rq))"
proof (cases ext opts "next" rw rq rule: Decode_trace_cases)
  case passed
  then show ?thesis by simp
next
  case (decoded evs v rw' rq')
  then show ?thesis using assms by (auto simp: ok_steps_def legit_def)
next
  case (failed evs k e rw' rq' eh)
  then show ?thesis using assms by (auto simp: ok_steps_def legit_def)
qed

text \<open>A custom decoder registered under \<open>gzip\<close>, on a gzip request.\<close>

theorem builtin_shadows_custom_witness:
  "0 < length (decoders (make_config [WithDecoder [suffix_decoder ''gzip'' ''-custom'']]
                          :: (string, nat) config)) \<and>
   builtin_token (Encoding (decoders (make_config [WithDecoder [suffix_decoder ''gzip'' ''-custom'']]
                                       :: (string, nat) config) ! 0)) \<and>
   Decoded (Custom 0) None \<notin>
     set (trace (Decode example_ext [WithDecoder [suffix_decoder ''gzip'' ''-custom'']]
                   example_next example_rw (example_request ''POST'' ''gzip'' ''Gtest'')))"
proof -
  let ?opts = "[WithDecoder [suffix_decoder ''gzip'' ''-custom'']] :: (string, nat) Option list"
  have a: "0 < length (decoders (make_config ?opts))"
    by (simp add: make_config_def defaults_def new_config_def)
  have b: "builtin_token (Encoding (decoders (make_config ?opts) ! 0))"
    by (simp add: make_config_def defaults_def new_config_def suffix_decoder_def builtin_token_def)
  show ?thesis using builtin_shadows_custom [OF a b] a b by blast
qed

text \<open>
  Claim C9. The step of a \<open>br\<close> token always succeeds and the loop goes on; no request
  has a failed brotli step in its trace, and every call of the error handler is on the
  error of a failed step that is not brotli's. The steps of \<open>gzip\<close>, \<open>x-gzip\<close> and
  \<open>zstd\<close> fail when the library returns an error for the body, and then the step
  returns after calling the error handler on that error.
\<close>

theorem brotli_never_fails_at_dispatch:
  "(\<exists>st'. switch_encoding ext (make_config opts) ''br'' st = Continue st' \<and>
          trace st' = trace st @ [Decoded Brotli None]) \<and>
   (\<forall>e. Decoded Brotli (Some e) \<notin> set (trace (Decode ext opts next rw rq))) \<and>
   (\<forall>rw' rq' e. ErrHandled rw' rq' e \<in> set (trace (Decode ext opts next rw rq)) \<longrightarrow>
      (\<exists>k. k \<noteq> Brotli \<and> Decoded k (Some e) \<in> set (trace (Decode ext opts next rw rq)))) \<and>
   ((v = ''gzip'' \<or> v = ''x-gzip'') \<and> gzip_NewReader ext (Body (req st)) = Inl err \<longrightarrow>
      (\<exists>st'. switch_encoding ext (make_config opts) v st = Return st' \<and>
             trace st' = trace st @ [Decoded Gzip (Some err), ErrHandled (resp st) (req st) err])) \<and>
   (zstd_NewReader ext (Body (req st)) (dopts (make_config opts)) = Inl err \<longrightarrow>
      (\<exists>st'. switch_encoding ext (make_config opts) ''zstd'' st = Return st' \<and>
             trace st' = trace st @ [Decoded Zstd (Some err), ErrHandled (resp st) (req st) err]))"
proof -
  obtain eh where eh: "errHandler (make_config opts) = Some eh"
    using make_config_errHandler by blast
  have 1: "\<exists>st'. switch_encoding ext (make_config opts) ''br'' st = Continue st' \<and>
          trace st' = trace st @ [Decoded Brotli None]"
    by (simp add: switch_encoding_br decompressBrotli_def log_event_def)
  have 2: "\<forall>e. Decoded Brotli (Some e) \<notin> set (trace (Decode ext opts next rw rq))"
    by (cases ext opts "next" rw rq rule: Decode_trace_cases) (auto simp: ok_steps_def)
  have 3: "\<forall>rw' rq' e. ErrHandled rw' rq' e \<in> set (trace (Decode ext opts next rw rq)) \<longrightarrow>
      (\<exists>k. k \<noteq> Brotli \<and> Decoded k (Some e) \<in> set (trace (Decode ext opts next rw rq)))"
    by (cases ext opts "next" rw rq rule: Decode_trace_cases) (auto simp: ok_steps_def)
  show ?thesis
    using 1 2 3 switch_encoding_gzip_fails [OF _ _ eh] switch_encoding_zstd_fails [OF _ eh]
    by blast
qed

text \<open>Bodies that are neither gzip nor zstd nor brotli.\<close>

theorem brotli_never_fails_at_dispatch_witness:
  "(\<exists>k. k \<noteq> Brotli \<and> Decoded k (Some (Error ''gzip: invalid header'')) \<in>
      set (trace (Decode example_ext [] example_next example_rw
                    (example_request ''POST'' ''br, gzip'' ''test'')))) \<and>
   (\<exists>st'. switch_encoding example_ext (make_config []) ''x-gzip''
             \<lparr>resp = example_rw, req = example_request ''POST'' ''x-gzip'' ''test'', trace = []\<rparr> =
           Return st' \<and>
           trace st' = [Decoded Gzip (Some (Error ''gzip: invalid header'')),
                        ErrHandled example_rw (example_request ''POST'' ''x-gzip'' ''test'')
                          (Error ''gzip: invalid header'')]) \<and>
   (\<exists>st'. switch_encoding example_ext (make_config []) ''zstd''
             \<lparr>resp = example_rw, req = example_request ''POST'' ''zstd'' ''test'', trace = []\<rparr> =
           Return st' \<and>
           trace st' = [Decoded Zstd (Some (Error ''invalid input'')),
                        ErrHandled example_rw (example_request ''POST'' ''zstd'' ''test'')
                          (Error ''invalid input'')]) \<and>
   (\<exists>st'. switch_encoding example_ext (make_config []) ''br''
             \<lparr>resp = example_rw, req = example_request ''POST'' ''br'' ''test'', trace = []\<rparr> =
           Continue st' \<and> trace st' = [Decoded Brotli None])"
proof -
  let ?rq = "example_request ''POST'' ''br, gzip'' ''test''"
  let ?stg = "\<lparr>resp = example_rw, req = example_request ''POST'' ''x-gzip'' ''test'', trace = []\<rparr>"
  let ?stz = "\<lparr>resp = example_rw, req = example_request ''POST'' ''zstd'' ''test'', trace = []\<rparr>"
  let ?stb = "\<lparr>resp = example_rw, req = example_request ''POST'' ''br'' ''test'', trace = []\<rparr>"
  have a: "ErrHandled example_rw ?rq (Error ''gzip: invalid header'') \<in>
             set (trace (Decode example_ext [] example_next example_rw ?rq))"
    by (simp add: handler_defs example_defs)
  have g: "(''x-gzip'' = ''gzip'' \<or> ''x-gzip'' = ''x-gzip'') \<and>
           gzip_NewReader example_ext (Body (req ?stg)) = Inl (Error ''gzip: invalid header'')"
    by (simp add: example_defs)
  have z: "zstd_NewReader example_ext (Body (req ?stz)) (dopts (make_config [])) =
             Inl (Error ''invalid input'')"
    by (simp add: example_defs)
  have p0: "\<exists>k. k \<noteq> Brotli \<and> Decoded k (Some (Error ''gzip: invalid header'')) \<in>
      set (trace (Decode example_ext [] example_next example_rw ?rq))"
    using brotli_never_fails_at_dispatch [of example_ext "[]" ?stb example_next example_rw ?rq] a
    by blast
  have p1: "\<exists>st'. switch_encoding example_ext (make_config []) ''x-gzip'' ?stg = Return st' \<and>
           trace st' = trace ?stg @ [Decoded Gzip (Some (Error ''gzip: invalid header'')),
                        ErrHandled (resp ?stg) (req ?stg) (Error ''gzip: invalid header'')]"
    using brotli_never_fails_at_dispatch [of example_ext "[]" ?stg example_next example_rw ?rq
        "''x-gzip''" "Error ''gzip: invalid header''"] g
    by blast
  have p2: "\<exists>st'. switch_encoding example_ext (make_config []) ''zstd'' ?stz = Return st' \<and>
           trace st' = trace ?stz @ [Decoded Zstd (Some (Error ''invalid input'')),
                        ErrHandled (resp ?stz) (req ?stz) (Error ''invalid input'')]"
    using brotli_never_fails_at_dispatch [of example_ext "[]" ?stz example_next example_rw ?rq
        "''zstd''" "Error ''invalid input''"] z
    by blast
  have p3: "\<exists>st'. switch_encoding example_ext (make_config []) ''br'' ?stb = Continue st' \<and>
           trace st' = trace ?stb @ [Decoded Brotli None]"
    using brotli_never_fails_at_dispatch [of example_ext "[]" ?stb example_next example_rw ?rq]
    by blast
  show ?thesis using p0 p1 p2 p3 by simp
qed

text \<open>
  Claim C10. The result of \<open>mergeAcceptEncoding\<close> does not depend on the order in which
  the set is iterated: any two iteration orders give the same string, which is
  determined by the prior header string and the list of supported encodings.
\<close>

theorem merge_deterministic:
  "mergeAcceptEncoding order1 raw adds = mergeAcceptEncoding order2 raw adds \<and>
   mergeAcceptEncoding order1 raw adds =
     (if raw = [] then Join adds '', ''
      else Join (sorted_list_of_set (set (splitEncodingHeader raw) \<union> set adds)) '', '')"
  by (simp add: mergeAcceptEncoding_eq)

text \<open>Two iteration orders on the same inputs.\<close>

theorem merge_deterministic_witness:
  "mergeAcceptEncoding [(0, 3), (1, 2)] ''gzip, deflate'' [''br'', ''gzip'', ''zstd''] =
     mergeAcceptEncoding [] ''gzip, deflate'' [''br'', ''gzip'', ''zstd''] \<and>
   mergeAcceptEncoding [] ''gzip, deflate'' [''br'', ''gzip'', ''zstd''] = ''br, deflate, gzip, zstd''"
proof -
  have "mergeAcceptEncoding [] ''gzip, deflate'' [''br'', ''gzip'', ''zstd''] = ''br, deflate, gzip, zstd''"
    by code_simp
  then show ?thesis
    using merge_deterministic [of "[(0, 3), (1, 2)]" "''gzip, deflate''" "[''br'', ''gzip'', ''zstd'']" "[]"]
    by simp
qed

end
